theory Spec2Isabelle
  imports Complex_Main "HOL-Library.Sublist" "HOL-Library.Multiset"
begin

section \<open>Strings and paths\<close>

text \<open>
  Python strings are modelled as \<open>string\<close>. The functions below are the ones of the
  standard library that \<^verbatim>\<open>folder_manipulation.py\<close> calls on strings and paths
  (\<^verbatim>\<open>str.split\<close>, \<^verbatim>\<open>str.join\<close>, \<^verbatim>\<open>str.lower\<close>, \<^verbatim>\<open>str.replace\<close>, and
  \<^verbatim>\<open>os.path.join\<close>, \<^verbatim>\<open>basename\<close>, \<^verbatim>\<open>splitext\<close> in their POSIX versions). A
  character is a byte, and \<open>lower\<close> changes the ASCII letters.
\<close>

type_synonym path = string

fun split_char :: "char \<Rightarrow> string \<Rightarrow> string list" where
  "split_char d [] = [[]]"
| "split_char d (c # cs) =
     (if c = d then [] # split_char d cs
      else (case split_char d cs of
              [] \<Rightarrow> [[c]]
            | w # ws \<Rightarrow> (c # w) # ws))"

fun join_str :: "string \<Rightarrow> string list \<Rightarrow> string" where
  "join_str sep [] = []"
| "join_str sep [w] = w"
| "join_str sep (w # ws) = w @ sep @ join_str sep ws"

definition lower_char :: "char \<Rightarrow> char" where
  "lower_char c =
     (let n = (of_char c :: nat) in if 65 \<le> n \<and> n \<le> 90 then char_of (n + 32) else c)"

definition lower :: "string \<Rightarrow> string" where
  "lower s = map lower_char s"

text \<open>\<^verbatim>\<open>s.replace(old, new)\<close>: every non-overlapping occurrence, from the left.\<close>

function replace :: "string \<Rightarrow> string \<Rightarrow> string \<Rightarrow> string" where
  "replace old new s =
     (if old = [] then new @ concat (map (\<lambda>c. c # new) s)
      else if s = [] then []
      else if prefix old s then new @ replace old new (drop (length old) s)
      else hd s # replace old new (tl s))"
  by pat_completeness auto
termination
  by (relation "measure (\<lambda>(old, new, s). length s)") auto

declare replace.simps [simp del]

fun rfind :: "char \<Rightarrow> string \<Rightarrow> int" where
  "rfind c [] = - 1"
| "rfind c (x # xs) =
     (let r = rfind c xs in if 0 \<le> r then r + 1 else if x = c then 0 else - 1)"

definition os_path_join :: "path \<Rightarrow> path \<Rightarrow> path" where
  "os_path_join a b =
     (if prefix ''/'' b then b
      else if a = [] \<or> suffix ''/'' a then a @ b
      else a @ ''/'' @ b)"

definition basename :: "path \<Rightarrow> string" where
  "basename p = drop (nat (rfind CHR ''/'' p + 1)) p"

definition splitext :: "path \<Rightarrow> string \<times> string" where
  "splitext p =
     (let sepIndex = rfind CHR ''/'' p;
          dotIndex = rfind CHR ''.'' p
      in if sepIndex < dotIndex \<and>
            list_ex (\<lambda>i. p ! i \<noteq> CHR ''.'') [nat (sepIndex + 1) ..< nat dotIndex]
         then (take (nat dotIndex) p, drop (nat dotIndex) p)
         else (p, []))"

section \<open>Metadata records, files and errors\<close>

text \<open>
  A metadata record is a JSON object, in Python a \<^verbatim>\<open>dict\<close> with string keys. The
  values are JSON values; the fields the program names are \<^verbatim>\<open>path\<close>, \<^verbatim>\<open>filename\<close>
  and \<^verbatim>\<open>characters\<close>, every other key is carried along untouched.
\<close>

datatype json =
    JNull
  | JBool bool
  | JNum rat
  | JStr string
  | JArr "json list"
  | JObj "(string \<times> json) list"

type_synonym meta = "string \<rightharpoonup> json"

text \<open>
  An image as \<^verbatim>\<open>cv2.imread\<close> returns it with its default flag: an array of shape
  (height, width, 3); the pixel data is opaque.
\<close>

record image =
  height :: nat
  width :: nat
  pixels :: "nat list"

text \<open>
  The file system, as far as the program reads and writes it: a file holds a JSON
  object or an image, or it is empty (opened for writing and never written). One name
  space for all, as on disk.
\<close>

datatype disk_file = JsonFile meta | ImageFile image | EmptyFile

type_synonym fs = "path \<rightharpoonup> disk_file"

datatype error =
    ValueError string
  | KeyError string
  | TypeError
  | AttributeError
  | ZeroDivisionError
  | JSONDecodeError
  | CvError

datatype outcome = Returned | Raised error

definition missing_crop_metadata :: error where
  "missing_crop_metadata = ValueError ''All the cropped files should have corresponding metadata''"

definition missing_metadata :: error where
  "missing_metadata = ValueError ''All metadata must exist before resizing to dst''"

text \<open>\<^verbatim>\<open>json.load\<close> of an existing file; a file that is not JSON does not parse.\<close>

definition json_load :: "disk_file \<Rightarrow> error + meta" where
  "json_load f = (case f of JsonFile m \<Rightarrow> Inr m | _ \<Rightarrow> Inl JSONDecodeError)"

text \<open>\<^verbatim>\<open>cv2.imread\<close> returns \<^verbatim>\<open>None\<close> for a file that is missing or is not an image.\<close>

definition cv2_imread :: "fs \<Rightarrow> path \<Rightarrow> image option" where
  "cv2_imread files p = (case files p of Some (ImageFile img) \<Rightarrow> Some img | _ \<Rightarrow> None)"

text \<open>Python's truth value of a JSON value, and \<^verbatim>\<open>x in v\<close> for a string \<open>x\<close>.\<close>

definition truthy :: "json \<Rightarrow> bool" where
  "truthy v =
     (case v of
        JNull \<Rightarrow> False
      | JBool b \<Rightarrow> b
      | JNum n \<Rightarrow> n \<noteq> 0
      | JStr s \<Rightarrow> s \<noteq> []
      | JArr xs \<Rightarrow> xs \<noteq> []
      | JObj kvs \<Rightarrow> kvs \<noteq> [])"

definition py_in :: "string \<Rightarrow> json \<Rightarrow> error + bool" where
  "py_in x v =
     (case v of
        JArr xs \<Rightarrow> Inr (JStr x \<in> set xs)
      | JStr s \<Rightarrow> Inr (sublist x s)
      | JObj kvs \<Rightarrow> Inr (x \<in> set (map fst kvs))
      | _ \<Rightarrow> Inl TypeError)"

definition py_append :: "json \<Rightarrow> string \<Rightarrow> error + json" where
  "py_append v x = (case v of JArr xs \<Rightarrow> Inr (JArr (xs @ [JStr x])) | _ \<Rightarrow> Inl AttributeError)"

section \<open>The collaborators outside the source file\<close>

text \<open>
  \<^verbatim>\<open>get_corr_meta_names\<close> and \<^verbatim>\<open>default_metadata\<close> come from \<^verbatim>\<open>anime2sd.basics\<close>,
  \<^verbatim>\<open>get_images_recursively\<close> from the same module lists the images under a directory,
  the codec is OpenCV's and the random numbers are Python's. They are parameters of the
  model. \<open>fl\<close> rounds a rational to the nearest double, \<open>inter_area\<close> computes the pixel
  data of a resized image, \<open>rng i\<close> is the \<open>i\<close>-th number drawn from the generator.
  \<^verbatim>\<open>cv2.imencode\<close> returns the encoded buffer, raises \<^verbatim>\<open>cv2.error\<close> (\<open>EncodeError\<close>), or
  returns \<^verbatim>\<open>False\<close> with an empty tuple for the buffer (\<open>EncodeFalse\<close>); \<^verbatim>\<open>cv2.imwrite\<close>
  writes the file, raises \<^verbatim>\<open>cv2.error\<close> (\<open>WriteError\<close>), or returns \<^verbatim>\<open>False\<close> and writes
  nothing (\<open>NotWritten\<close>).
\<close>

datatype imencode_result = Encoded image | EncodeError | EncodeFalse

datatype imwrite_result = Written image | NotWritten | WriteError

record env =
  get_corr_meta_names :: "path \<Rightarrow> path \<times> string"
  default_metadata :: "path \<Rightarrow> meta"
  cv2_imencode :: "string \<Rightarrow> image \<Rightarrow> imencode_result"
  cv2_imwrite :: "path \<Rightarrow> image \<Rightarrow> imwrite_result"
  get_images_recursively :: "path \<Rightarrow> path list"
  fl :: "rat \<Rightarrow> rat"
  inter_area :: "image \<Rightarrow> nat \<Rightarrow> nat \<Rightarrow> nat list"
  rng :: "nat \<Rightarrow> nat"

section \<open>The label synchronizer: \<^verbatim>\<open>save_characters_to_meta\<close>\<close>

definition image_extensions :: "string list" where
  "image_extensions = [''.png'', ''.jpg'', ''.jpeg'', ''.webp'', ''.gif'']"

definition char_name_of :: "string \<Rightarrow> string" where
  "char_name_of folder_name = join_str ''_'' (drop 1 (split_char CHR ''_'' folder_name))"

text \<open>
  Lines 66 to 70: the record of the original frame is loaded, or default-constructed
  when there is no file.
\<close>

definition load_original :: "env \<Rightarrow> path \<Rightarrow> fs \<Rightarrow> error + meta" where
  "load_original e original_path files =
     (case files (fst (get_corr_meta_names e original_path)) of
        Some f \<Rightarrow> json_load f
      | None \<Rightarrow> Inr (default_metadata e original_path))"

text \<open>
  Lines 74 to 80: \<^verbatim>\<open>characters\<close> is reset on the first encounter of the path in this
  run, and the name is appended when it is not in the list.
\<close>

definition add_character :: "string \<Rightarrow> bool \<Rightarrow> meta \<Rightarrow> error + meta" where
  "add_character char_name first_encounter loaded =
     (let orig_meta_data =
            (if first_encounter then loaded(''characters'' \<mapsto> JArr []) else loaded)
      in (case orig_meta_data ''characters'' of
            None \<Rightarrow> Inl (KeyError ''characters'')
          | Some cs \<Rightarrow>
              (case py_in char_name cs of
                 Inl err \<Rightarrow> Inl err
               | Inr True \<Rightarrow> Inr orig_meta_data
               | Inr False \<Rightarrow>
                   (case py_append cs char_name of
                      Inl err \<Rightarrow> Inl err
                    | Inr cs' \<Rightarrow> Inr (orig_meta_data(''characters'' \<mapsto> cs'))))))"

text \<open>
  Lines 61 to 84, for the value \<open>pv\<close> of the \<^verbatim>\<open>path\<close> field of the crop's record. A
  value that is not a string is a \<^verbatim>\<open>TypeError\<close> in the path functions.
\<close>

definition update_original ::
  "env \<Rightarrow> string \<Rightarrow> json \<Rightarrow> path set \<times> fs \<Rightarrow> outcome \<times> path set \<times> fs" where
  "update_original e char_name pv st =
     (case st of (encountered_paths, files) \<Rightarrow>
      (case pv of
         JStr original_path \<Rightarrow>
           (case load_original e original_path files of
              Inl err \<Rightarrow> (Raised err, encountered_paths, files)
            | Inr loaded \<Rightarrow>
                (case add_character char_name (original_path \<notin> encountered_paths) loaded of
                   Inl err \<Rightarrow> (Raised err, insert original_path encountered_paths, files)
                 | Inr orig_meta_data \<Rightarrow>
                     (Returned, insert original_path encountered_paths,
                      files(fst (get_corr_meta_names e original_path) \<mapsto>
                        JsonFile orig_meta_data))))
       | _ \<Rightarrow> (Raised TypeError, encountered_paths, files)))"

text \<open>Lines 47 to 88: the crop's record is loaded, relabelled, and written back.\<close>

definition sync_crop ::
  "env \<Rightarrow> string \<Rightarrow> path \<Rightarrow> path set \<times> fs \<Rightarrow> outcome \<times> path set \<times> fs" where
  "sync_crop e char_name meta_file_path st =
     (case st of (encountered_paths, files) \<Rightarrow>
      (case files meta_file_path of
         None \<Rightarrow> (Raised missing_crop_metadata, encountered_paths, files)
       | Some f \<Rightarrow>
           (case json_load f of
              Inl err \<Rightarrow> (Raised err, encountered_paths, files)
            | Inr loaded \<Rightarrow>
                (let meta_data = loaded(''characters'' \<mapsto> JArr [JStr char_name]) in
                 (case meta_data ''path'' of
                    None \<Rightarrow>
                      (Returned, encountered_paths,
                       files(meta_file_path \<mapsto> JsonFile meta_data))
                  | Some pv \<Rightarrow>
                      (case update_original e char_name pv st of
                         (Raised err, st') \<Rightarrow> (Raised err, st')
                       | (Returned, encountered, files') \<Rightarrow>
                           (Returned, encountered,
                            files'(meta_file_path \<mapsto> JsonFile meta_data))))))))"

text \<open>Lines 36 to 88: the body of the inner loop, for one entry of a crop folder.\<close>

definition sync_image ::
  "env \<Rightarrow> path \<Rightarrow> string \<Rightarrow> string \<Rightarrow> path set \<times> fs \<Rightarrow> outcome \<times> path set \<times> fs" where
  "sync_image e folder_path char_name img_file st =
     (if lower (snd (splitext img_file)) \<notin> set image_extensions then (Returned, st)
      else sync_crop e char_name
             (fst (get_corr_meta_names e (os_path_join folder_path img_file))) st)"

text \<open>The inner loop, over \<^verbatim>\<open>os.listdir(folder_path)\<close>; a raise ends it.\<close>

fun sync_files ::
  "env \<Rightarrow> path \<Rightarrow> string \<Rightarrow> string list \<Rightarrow> path set \<times> fs \<Rightarrow> outcome \<times> path set \<times> fs" where
  "sync_files e folder_path char_name [] st = (Returned, st)"
| "sync_files e folder_path char_name (img_file # rest) st =
     (case sync_image e folder_path char_name img_file st of
        (Raised err, st') \<Rightarrow> (Raised err, st')
      | (Returned, st') \<Rightarrow> sync_files e folder_path char_name rest st')"

text \<open>
  The outer loop, over \<^verbatim>\<open>os.listdir(crop_dir)\<close>. The directory tree is read only: an
  entry of the listing is a name with the listing of that directory, or \<open>None\<close> when
  \<^verbatim>\<open>os.path.isdir\<close> is false for it.
\<close>

type_synonym listing = "(string \<times> string list option) list"

fun sync_folders ::
  "env \<Rightarrow> path \<Rightarrow> listing \<Rightarrow> path set \<times> fs \<Rightarrow> outcome \<times> path set \<times> fs" where
  "sync_folders e crop_dir [] st = (Returned, st)"
| "sync_folders e crop_dir ((folder_name, entry) # rest) st =
     (let char_name = char_name_of folder_name in
      if prefix ''noise'' char_name then sync_folders e crop_dir rest st
      else
        (case entry of
           None \<Rightarrow> sync_folders e crop_dir rest st
         | Some img_files \<Rightarrow>
             (case sync_files e (os_path_join crop_dir folder_name) char_name img_files st of
                (Raised err, st') \<Rightarrow> (Raised err, st')
              | (Returned, st') \<Rightarrow> sync_folders e crop_dir rest st')))"

definition save_characters_to_meta :: "env \<Rightarrow> path \<Rightarrow> listing \<Rightarrow> fs \<Rightarrow> outcome \<times> fs" where
  "save_characters_to_meta e crop_dir folders files =
     (case sync_folders e crop_dir folders ({}, files) of
        (res, encountered_paths, files') \<Rightarrow> (res, files'))"

section \<open>The run of the synchronizer as a list of crops\<close>

text \<open>
  The two loops visit the image files of the folders that are not skipped, in order.
  A job is what the body needs of one such file: the character name of its folder and
  the path of its metadata record. \<open>run_jobs\<close> is the loop over the jobs; it is shown
  below to be the two nested loops.
\<close>

type_synonym job = "string \<times> path"

definition jobs_of_files :: "env \<Rightarrow> path \<Rightarrow> string \<Rightarrow> string list \<Rightarrow> job list" where
  "jobs_of_files e folder_path char_name img_files =
     map (\<lambda>img_file. (char_name, fst (get_corr_meta_names e (os_path_join folder_path img_file))))
       (filter (\<lambda>img_file. lower (snd (splitext img_file)) \<in> set image_extensions) img_files)"

definition jobs_of_folder :: "env \<Rightarrow> path \<Rightarrow> string \<times> string list option \<Rightarrow> job list" where
  "jobs_of_folder e crop_dir entry =
     (case entry of (folder_name, listing) \<Rightarrow>
        if prefix ''noise'' (char_name_of folder_name) then []
        else (case listing of
                None \<Rightarrow> []
              | Some img_files \<Rightarrow>
                  jobs_of_files e (os_path_join crop_dir folder_name)
                    (char_name_of folder_name) img_files))"

definition jobs_of :: "env \<Rightarrow> path \<Rightarrow> listing \<Rightarrow> job list" where
  "jobs_of e crop_dir folders = concat (map (jobs_of_folder e crop_dir) folders)"

fun run_jobs :: "env \<Rightarrow> job list \<Rightarrow> path set \<times> fs \<Rightarrow> outcome \<times> path set \<times> fs" where
  "run_jobs e [] st = (Returned, st)"
| "run_jobs e ((char_name, meta_file_path) # rest) st =
     (case sync_crop e char_name meta_file_path st of
        (Raised err, st') \<Rightarrow> (Raised err, st')
      | (Returned, st') \<Rightarrow> run_jobs e rest st')"

text \<open>
  What a run leaves of a record it rewrites: everything but \<^verbatim>\<open>characters\<close>.
\<close>

definition strip_meta :: "meta \<Rightarrow> meta" where
  "strip_meta m = m(''characters'' := None)"

definition strip :: "disk_file \<Rightarrow> disk_file" where
  "strip f = (case f of JsonFile m \<Rightarrow> JsonFile (strip_meta m) | _ \<Rightarrow> f)"

text \<open>
  The original frame a crop's record links to, the \<^verbatim>\<open>characters\<close> of the record at a
  path, and the list the specification describes: the names of the crops whose record
  links to \<open>F\<close>, in the order the crops are visited, each kept at its first occurrence.
\<close>

definition link_of :: "fs \<Rightarrow> path \<Rightarrow> path option" where
  "link_of files P =
     (case files P of
        Some (JsonFile m) \<Rightarrow> (case m ''path'' of Some (JStr F) \<Rightarrow> Some F | _ \<Rightarrow> None)
      | _ \<Rightarrow> None)"

definition characters_at :: "fs \<Rightarrow> path \<Rightarrow> json option" where
  "characters_at files Q = (case files Q of Some (JsonFile m) \<Rightarrow> m ''characters'' | _ \<Rightarrow> None)"

definition add_name :: "string \<Rightarrow> string list \<Rightarrow> string list" where
  "add_name c xs = (if c \<in> set xs then xs else xs @ [c])"

definition ordered_dedup :: "string list \<Rightarrow> string list" where
  "ordered_dedup xs = fold add_name xs []"

definition derived_names :: "fs \<Rightarrow> job list \<Rightarrow> path \<Rightarrow> string list" where
  "derived_names files js F = map fst (filter (\<lambda>j. link_of files (snd j) = Some F) js)"

text \<open>
  The data model of the specification has one record for each image, and the crops link
  to frames that are not crops themselves: the record of a linked frame is the record of
  no crop, and two linked frames that share a record are the same frame.
\<close>

definition originals_apart :: "env \<Rightarrow> fs \<Rightarrow> job list \<Rightarrow> bool" where
  "originals_apart e files js =
     list_all (\<lambda>P. case link_of files P of
                  None \<Rightarrow> True
                | Some F \<Rightarrow>
                    list_all (\<lambda>P'. fst (get_corr_meta_names e F) \<noteq> P' \<and>
                                (case link_of files P' of
                                   None \<Rightarrow> True
                                 | Some F' \<Rightarrow>
                                     fst (get_corr_meta_names e F') = fst (get_corr_meta_names e F)
                                       \<longrightarrow> F' = F))
                      (map snd js))
       (map snd js)"

section \<open>Resizing: \<^verbatim>\<open>resize_image\<close>\<close>

text \<open>
  \<^verbatim>\<open>cv2.resize(image, None, fx, fy, INTER_AREA)\<close>: the destination size is
  \<open>(cvRound (cols * fx), cvRound (rows * fy))\<close>, computed in doubles, \<open>cvRound\<close> rounding
  to the nearest integer and a tie to the even one. An empty source or destination
  is an error, and a destination of the size of the source is a copy of the source.
\<close>

definition cvRound :: "rat \<Rightarrow> int" where
  "cvRound x =
     (let f = \<lfloor>x\<rfloor>; d = x - of_int f
      in if d < 1 / 2 then f else if 1 / 2 < d then f + 1 else if even f then f else f + 1)"

definition cv2_resize :: "env \<Rightarrow> image \<Rightarrow> rat \<Rightarrow> rat \<Rightarrow> error + image" where
  "cv2_resize e src fx fy =
     (let dw = cvRound (fl e (of_nat (width src) * fx));
          dh = cvRound (fl e (of_nat (height src) * fy))
      in if width src = 0 \<or> height src = 0 \<or> dw \<le> 0 \<or> dh \<le> 0 then Inl CvError
         else if dw = int (width src) \<and> dh = int (height src) then Inr src
         else Inr \<lparr>height = nat dh, width = nat dw,
                   pixels = inter_area e src (nat dh) (nat dw)\<rparr>)"

text \<open>
  What the proofs need of the rounding to the nearest double: in the range the program
  works in, the relative error is at most \<open>2\<^sup>-\<^sup>5\<^sup>3\<close>, and the integers up to
  \<open>2\<^sup>5\<^sup>3\<close> are doubles.
\<close>

definition double_rounding :: "(rat \<Rightarrow> rat) \<Rightarrow> bool" where
  "double_rounding f \<longleftrightarrow>
     (\<forall>x. 1 / 2 ^ 64 \<le> \<bar>x\<bar> \<and> \<bar>x\<bar> \<le> 2 ^ 64 \<longrightarrow> \<bar>f x - x\<bar> * 2 ^ 53 \<le> \<bar>x\<bar>)
     \<and> (\<forall>n::int. \<bar>n\<bar> \<le> 2 ^ 53 \<longrightarrow> f (of_int n) = of_int n)"

text \<open>Lines 91 to 103. The argument is \<open>None\<close> when \<^verbatim>\<open>cv2.imread\<close> could not read the file.\<close>

definition resize_image :: "env \<Rightarrow> image option \<Rightarrow> int \<Rightarrow> error + image" where
  "resize_image e image_arg max_size =
     (case image_arg of
        None \<Rightarrow> Inl AttributeError
      | Some img \<Rightarrow>
          (let shorter = min (height img) (width img)
           in if int shorter < max_size then Inr img
              else if shorter = 0 then Inl ZeroDivisionError
              else (let scaling_factor = fl e (of_int max_size / of_nat shorter)
                    in cv2_resize e img scaling_factor scaling_factor)))"

section \<open>The export primitive: \<^verbatim>\<open>save_image_and_meta\<close>\<close>

text \<open>Lines 134 to 145: the metadata record is copied, with its \<^verbatim>\<open>filename\<close> rewritten.\<close>

definition copy_meta :: "env \<Rightarrow> path \<Rightarrow> path \<Rightarrow> string \<Rightarrow> fs \<Rightarrow> outcome \<times> fs" where
  "copy_meta e img_path save_dir ext files =
     (case get_corr_meta_names e img_path of (meta_path, meta_filename) \<Rightarrow>
      (case files meta_path of
         None \<Rightarrow> (Raised missing_metadata, files)
       | Some f \<Rightarrow>
           (case json_load f of
              Inl err \<Rightarrow> (Raised err, files)
            | Inr meta_data \<Rightarrow>
                (case meta_data ''filename'' of
                   None \<Rightarrow> (Raised (KeyError ''filename''), files)
                 | Some (JStr name) \<Rightarrow>
                     (Returned,
                      files(os_path_join save_dir meta_filename \<mapsto>
                        JsonFile (meta_data(''filename'' \<mapsto> JStr (replace ''.png'' ext name)))))
                 | Some _ \<Rightarrow> (Raised AttributeError, files)))))"

text \<open>
  Lines 113 to 132, then the copy of the record. Only \<^verbatim>\<open>cv2.error\<close> from
  \<^verbatim>\<open>cv2.imencode\<close> is caught. Its success flag is dropped at line 123; when it is
  \<^verbatim>\<open>False\<close> the file is opened, and so created, at line 128 and \<^verbatim>\<open>buf.tofile\<close> at line
  129 raises \<^verbatim>\<open>AttributeError\<close>. The result of \<^verbatim>\<open>cv2.imwrite\<close> at line 132 is dropped.
\<close>

definition save_image_and_meta ::
  "env \<Rightarrow> image \<Rightarrow> path \<Rightarrow> path \<Rightarrow> string \<Rightarrow> fs \<Rightarrow> outcome \<times> fs" where
  "save_image_and_meta e img img_path save_dir ext files =
     (let filename = basename img_path;
          base_filename = fst (splitext filename);
          adjusted_filename = base_filename @ ext;
          adjusted_path = os_path_join save_dir adjusted_filename
      in if ext = ''.webp'' then
           (case cv2_imencode e ext img of
              EncodeError \<Rightarrow> (Returned, files)
            | EncodeFalse \<Rightarrow> (Raised AttributeError, files(adjusted_path \<mapsto> EmptyFile))
            | Encoded buf \<Rightarrow>
                copy_meta e img_path save_dir ext (files(adjusted_path \<mapsto> ImageFile buf)))
         else
           (case cv2_imwrite e adjusted_path img of
              WriteError \<Rightarrow> (Raised CvError, files)
            | NotWritten \<Rightarrow> copy_meta e img_path save_dir ext files
            | Written buf \<Rightarrow>
                copy_meta e img_path save_dir ext (files(adjusted_path \<mapsto> ImageFile buf))))"

section \<open>The export pipeline: \<^verbatim>\<open>resize_character_images\<close>\<close>

text \<open>\<^verbatim>\<open>'characters' in meta_data and meta_data['characters']\<close>\<close>

definition has_characters :: "meta \<Rightarrow> bool" where
  "has_characters meta_data =
     (case meta_data ''characters'' of None \<Rightarrow> False | Some v \<Rightarrow> truthy v)"

text \<open>The number of elements of the array of an image, its \<^verbatim>\<open>size\<close>.\<close>

definition np_size :: "image \<Rightarrow> nat" where
  "np_size img = height img * width img * 3"

text \<open>
  Lines 157 to 176, the body of the loop over the crops. \<^verbatim>\<open>0.5 * original_img.size\<close> is
  a double; for the sizes of images the product is exact.
\<close>

definition process_crop :: "env \<Rightarrow> path \<Rightarrow> int \<Rightarrow> string \<Rightarrow> path \<Rightarrow> fs \<Rightarrow> outcome \<times> fs" where
  "process_crop e dst_dir max_size ext img_path files =
     (let meta_path = fst (get_corr_meta_names e img_path) in
      (case files meta_path of
         None \<Rightarrow> (Raised missing_crop_metadata, files)
       | Some f \<Rightarrow>
           (case json_load f of
              Inl err \<Rightarrow> (Raised err, files)
            | Inr meta_data \<Rightarrow>
                if has_characters meta_data then
                  (case meta_data ''path'' of
                     None \<Rightarrow> (Raised (KeyError ''path''), files)
                   | Some (JStr original_path) \<Rightarrow>
                       (case cv2_imread files img_path of
                          None \<Rightarrow> (Raised AttributeError, files)
                        | Some cropped_img \<Rightarrow>
                            (case cv2_imread files original_path of
                               None \<Rightarrow> (Raised AttributeError, files)
                             | Some original_img \<Rightarrow>
                                 if (1 / 2 :: rat) * of_nat (np_size original_img)
                                      < of_nat (np_size cropped_img)
                                 then (Returned, files)
                                 else
                                   (case resize_image e (Some cropped_img) max_size of
                                      Inl err \<Rightarrow> (Raised err, files)
                                    | Inr resized_img \<Rightarrow>
                                        save_image_and_meta e resized_img img_path
                                          (os_path_join dst_dir ''cropped'') ext files)))
                   | Some _ \<Rightarrow> (Raised TypeError, files))
                else (Returned, files))))"

fun process_crops :: "env \<Rightarrow> path \<Rightarrow> int \<Rightarrow> string \<Rightarrow> path list \<Rightarrow> fs \<Rightarrow> outcome \<times> fs" where
  "process_crops e dst_dir max_size ext [] files = (Returned, files)"
| "process_crops e dst_dir max_size ext (img_path # rest) files =
     (case process_crop e dst_dir max_size ext img_path files of
        (Raised err, files') \<Rightarrow> (Raised err, files')
      | (Returned, files') \<Rightarrow> process_crops e dst_dir max_size ext rest files')"

text \<open>
  Lines 182 to 199, the body of the loop over the full frames. The state is the list
  \<^verbatim>\<open>nocharacter_frames\<close> and the files.
\<close>

definition process_full ::
  "env \<Rightarrow> int \<Rightarrow> path \<Rightarrow> path list \<times> fs \<Rightarrow> outcome \<times> path list \<times> fs" where
  "process_full e max_size img_path st =
     (case st of (nocharacter_frames, files) \<Rightarrow>
      (let meta_path = fst (get_corr_meta_names e img_path) in
       (case files meta_path of
          None \<Rightarrow>
            (Returned, nocharacter_frames @ [img_path],
             files(meta_path \<mapsto> JsonFile (default_metadata e img_path)))
        | Some f \<Rightarrow>
            (case json_load f of
               Inl err \<Rightarrow> (Raised err, st)
             | Inr meta_data \<Rightarrow>
                 if has_characters meta_data then
                   (case resize_image e (cv2_imread files img_path) max_size of
                      Inl err \<Rightarrow> (Raised err, st)
                    | Inr resized_img \<Rightarrow> (Returned, st))
                 else (Returned, nocharacter_frames @ [img_path], files)))))"

fun process_fulls ::
  "env \<Rightarrow> int \<Rightarrow> path list \<Rightarrow> path list \<times> fs \<Rightarrow> outcome \<times> path list \<times> fs" where
  "process_fulls e max_size [] st = (Returned, st)"
| "process_fulls e max_size (img_path # rest) st =
     (case process_full e max_size img_path st of
        (Raised err, st') \<Rightarrow> (Raised err, st')
      | (Returned, st') \<Rightarrow> process_fulls e max_size rest st')"

text \<open>
  \<^verbatim>\<open>random.sample(population, k)\<close>: a \<^verbatim>\<open>ValueError\<close> unless \<open>0 \<le> k \<le> n\<close>; then \<open>k\<close> times
  a position of the pool is drawn, its element is taken, and the last element of the
  pool moves to that position. (For a large population Python draws positions until
  it finds a new one, which selects distinct positions as well.)
\<close>

fun sample_loop :: "(nat \<Rightarrow> nat) \<Rightarrow> 'a list \<Rightarrow> nat \<Rightarrow> nat \<Rightarrow> 'a list" where
  "sample_loop draw pool i 0 = []"
| "sample_loop draw pool i (Suc r) =
     (let n = length pool; j = draw i mod (n - i)
      in pool ! j # sample_loop draw (pool[j := pool ! (n - i - 1)]) (Suc i) r)"

definition random_sample :: "(nat \<Rightarrow> nat) \<Rightarrow> 'a list \<Rightarrow> int \<Rightarrow> error + 'a list" where
  "random_sample draw population k =
     (if 0 \<le> k \<and> k \<le> int (length population)
      then Inr (sample_loop draw population 0 (nat k))
      else Inl (ValueError ''Sample larger than population or is negative''))"

text \<open>Lines 202 to 206.\<close>

definition select_frames :: "env \<Rightarrow> int \<Rightarrow> path list \<Rightarrow> error + path list" where
  "select_frames e n_nocharacter_frames nocharacter_frames =
     (if n_nocharacter_frames < int (length nocharacter_frames)
      then random_sample (rng e) nocharacter_frames n_nocharacter_frames
      else Inr nocharacter_frames)"

text \<open>Lines 208 to 212, the loop over the selected frames.\<close>

fun export_frames :: "env \<Rightarrow> path \<Rightarrow> int \<Rightarrow> string \<Rightarrow> path list \<Rightarrow> fs \<Rightarrow> outcome \<times> fs" where
  "export_frames e dst_dir max_size ext [] files = (Returned, files)"
| "export_frames e dst_dir max_size ext (img_path # rest) files =
     (case resize_image e (cv2_imread files img_path) max_size of
        Inl err \<Rightarrow> (Raised err, files)
      | Inr resized_img \<Rightarrow>
          (case save_image_and_meta e resized_img img_path
                  (os_path_join dst_dir ''full'') ext files of
             (Raised err, files') \<Rightarrow> (Raised err, files')
           | (Returned, files') \<Rightarrow> export_frames e dst_dir max_size ext rest files'))"

definition resize_character_images ::
  "env \<Rightarrow> path \<Rightarrow> path \<Rightarrow> path \<Rightarrow> int \<Rightarrow> string \<Rightarrow> int \<Rightarrow> fs \<Rightarrow> outcome \<times> fs" where
  "resize_character_images e crop_dir full_dir dst_dir max_size ext n_nocharacter_frames files =
     (case process_crops e dst_dir max_size ext (get_images_recursively e crop_dir) files of
        (Raised err, files1) \<Rightarrow> (Raised err, files1)
      | (Returned, files1) \<Rightarrow>
          (case process_fulls e max_size (get_images_recursively e full_dir) ([], files1) of
             (Raised err, nocharacter_frames, files2) \<Rightarrow> (Raised err, files2)
           | (Returned, nocharacter_frames, files2) \<Rightarrow>
               (case select_frames e n_nocharacter_frames nocharacter_frames of
                  Inl err \<Rightarrow> (Raised err, files2)
                | Inr selected_frames \<Rightarrow>
                    export_frames e dst_dir max_size ext selected_frames files2)))"

section \<open>A small installation, for the worked instances\<close>

text \<open>
  A concrete environment in which the theorems below are instantiated: the metadata
  of \<open>p\<close> lies beside it in \<open>p.json\<close>, the codec succeeds, arithmetic is exact.
\<close>

definition example_env :: env where
  "example_env =
     \<lparr>get_corr_meta_names = (\<lambda>p. (p @ ''.json'', basename p @ ''.json'')),
      default_metadata = (\<lambda>p. [''path'' \<mapsto> JStr p, ''filename'' \<mapsto> JStr (basename p)]),
      cv2_imencode = (\<lambda>ext img. Encoded img),
      cv2_imwrite = (\<lambda>p img. Written img),
      get_images_recursively = (\<lambda>d. [d @ ''/a.png'']),
      fl = (\<lambda>x. x),
      inter_area = (\<lambda>img h w. []),
      rng = (\<lambda>i. 0)\<rparr>"

definition small_image :: image where
  "small_image = \<lparr>height = 2, width = 2, pixels = []\<rparr>"

definition large_image :: image where
  "large_image = \<lparr>height = 2, width = 3, pixels = []\<rparr>"

definition crop_record :: meta where
  "crop_record = [''path'' \<mapsto> JStr ''full/f.png'', ''filename'' \<mapsto> JStr ''a.png'',
                  ''characters'' \<mapsto> JArr [JStr ''alice'']]"

definition example_files :: fs where
  "example_files =
     [''crops/a.png'' \<mapsto> ImageFile small_image,
      ''full/f.png'' \<mapsto> ImageFile large_image,
      ''crops/a.png.json'' \<mapsto> JsonFile crop_record]"

text \<open>Two crop folders whose crops come from the same frame.\<close>

definition two_crops :: fs where
  "two_crops =
     [''crops/1_alice/a.png.json'' \<mapsto> JsonFile [''path'' \<mapsto> JStr ''full/f.png''],
      ''crops/2_bob/b.png.json'' \<mapsto> JsonFile [''path'' \<mapsto> JStr ''full/f.png'']]"

definition two_folders :: listing where
  "two_folders = [(''1_alice'', Some [''a.png'']), (''2_bob'', Some [''b.png''])]"

section \<open>Properties of the export pipeline\<close>

lemma process_crops_append:
  "process_crops e dst_dir max_size ext (xs @ ys) files =
     (case process_crops e dst_dir max_size ext xs files of
        (Raised err, files') \<Rightarrow> (Raised err, files')
      | (Returned, files') \<Rightarrow> process_crops e dst_dir max_size ext ys files')"
  by (induction xs arbitrary: files) (auto split: prod.splits outcome.splits)

lemma half_size_less:
  "((1 / 2 :: rat) * of_nat (np_size original_img) < of_nat (np_size cropped_img))
     = (height original_img * width original_img < 2 * (height cropped_img * width cropped_img))"
proof -
  have "((1 / 2 :: rat) * of_nat (np_size original_img) < of_nat (np_size cropped_img))
      = ((of_nat (np_size original_img) :: rat) < of_nat (2 * np_size cropped_img))"
    by (simp add: field_simps)
  also have "\<dots> = (np_size original_img < 2 * np_size cropped_img)"
    by (simp only: of_nat_less_iff)
  also have "\<dots> = (height original_img * width original_img
                      < 2 * (height cropped_img * width cropped_img))"
    by (simp add: np_size_def)
  finally show ?thesis .
qed

text \<open>
  C4. A crop whose pixel area is more than half the pixel area of the original frame
  its record links to is not exported: processing it returns normally and leaves every
  file as it was, so the loop over the crops goes on as if the crop were not there.
\<close>

theorem oversized_crop_not_exported:
  assumes "files (fst (get_corr_meta_names e img_path)) = Some (JsonFile meta_data)"
    and "meta_data ''path'' = Some (JStr original_path)"
    and "cv2_imread files img_path = Some cropped_img"
    and "cv2_imread files original_path = Some original_img"
    and "height original_img * width original_img < 2 * (height cropped_img * width cropped_img)"
  shows "process_crop e dst_dir max_size ext img_path files = (Returned, files)
       \<and> process_crops e dst_dir max_size ext (img_path # rest) files
           = process_crops e dst_dir max_size ext rest files"
proof -
  have "(1 / 2 :: rat) * of_nat (np_size original_img) < of_nat (np_size cropped_img)"
    using assms(5) by (simp only: half_size_less)
  then have "process_crop e dst_dir max_size ext img_path files = (Returned, files)"
    using assms(1-4) by (simp add: process_crop_def json_load_def)
  then show ?thesis by simp
qed

theorem oversized_crop_not_exported_witness:
  "process_crop example_env ''out'' 512 ''.webp'' ''crops/a.png'' example_files
     = (Returned, example_files)
   \<and> process_crops example_env ''out'' 512 ''.webp'' [''crops/a.png''] example_files
     = (Returned, example_files)"
  using oversized_crop_not_exported [where e = example_env and img_path = "''crops/a.png''"
      and files = example_files and meta_data = crop_record and original_path = "''full/f.png''"
      and cropped_img = small_image and original_img = large_image
      and dst_dir = "''out''" and max_size = 512 and ext = "''.webp''" and rest = "[]"]
  by (simp add: example_env_def example_files_def crop_record_def cv2_imread_def
        small_image_def large_image_def)

lemma process_crop_no_path:
  assumes "files (fst (get_corr_meta_names e img_path)) = Some (JsonFile meta_data)"
    and "meta_data ''characters'' = Some (JArr (c # cs))"
    and "meta_data ''path'' = None"
  shows "process_crop e dst_dir max_size ext img_path files = (Raised (KeyError ''path''), files)"
  using assms by (simp add: process_crop_def json_load_def has_characters_def truthy_def)

text \<open>
  C10. A crop record with a non-empty \<^verbatim>\<open>characters\<close> list and no \<^verbatim>\<open>path\<close> key makes
  the loop over the crops raise \<^verbatim>\<open>KeyError('path')\<close>: the crop is neither skipped nor
  reported as missing metadata, and the whole run ends there, the files as they were
  when the crop was reached.
\<close>

theorem phase_a_path_key_error:
  assumes "get_images_recursively e crop_dir = before @ img_path # rest"
    and "process_crops e dst_dir max_size ext before files0 = (Returned, files)"
    and "files (fst (get_corr_meta_names e img_path)) = Some (JsonFile meta_data)"
    and "meta_data ''characters'' = Some (JArr (c # cs))"
    and "meta_data ''path'' = None"
  shows "process_crop e dst_dir max_size ext img_path files = (Raised (KeyError ''path''), files)
       \<and> resize_character_images e crop_dir full_dir dst_dir max_size ext n files0
           = (Raised (KeyError ''path''), files)"
  using assms(1,2)
    process_crop_no_path [of files e img_path meta_data c cs dst_dir max_size ext, OF assms(3-5)]
  by (simp add: resize_character_images_def process_crops_append)

theorem phase_a_path_key_error_witness:
  "resize_character_images example_env ''crops'' ''full'' ''out'' 512 ''.webp'' 0
     [''crops/a.png.json'' \<mapsto> JsonFile [''characters'' \<mapsto> JArr [JStr ''alice'']]]
   = (Raised (KeyError ''path''),
      [''crops/a.png.json'' \<mapsto> JsonFile [''characters'' \<mapsto> JArr [JStr ''alice'']]])"
  using phase_a_path_key_error [where e = example_env and crop_dir = "''crops''"
      and before = "[]" and img_path = "''crops/a.png''" and rest = "[]"
      and files0 = "[''crops/a.png.json'' \<mapsto> JsonFile [''characters'' \<mapsto> JArr [JStr ''alice'']]]"
      and files = "[''crops/a.png.json'' \<mapsto> JsonFile [''characters'' \<mapsto> JArr [JStr ''alice'']]]"
      and meta_data = "[''characters'' \<mapsto> JArr [JStr ''alice'']]"
      and c = "JStr ''alice''" and cs = "[]" and dst_dir = "''out''" and max_size = 512
      and ext = "''.webp''" and full_dir = "''full''" and n = 0]
  by (simp add: example_env_def)

lemma suffix_join: "suffix ext (os_path_join d (b @ ext))"
  by (auto simp: os_path_join_def suffix_def)

lemma copy_meta_missing:
  "copy_meta e img_path save_dir ext files = (Raised missing_metadata, files') \<Longrightarrow> files' = files"
  by (auto simp: copy_meta_def split: prod.splits option.splits sum.splits json.splits)

text \<open>
  C9, as the code has it. When \<^verbatim>\<open>save_image_and_meta\<close> raises for a missing metadata
  record, the writing of the image has been attempted before: unless \<^verbatim>\<open>cv2.imwrite\<close>
  returned \<^verbatim>\<open>False\<close> and wrote nothing, the files it leaves behind are the files it found
  plus the image at the destination path, and that path ends in the requested extension.
\<close>

theorem image_written_before_metadata_check:
  assumes "save_image_and_meta e img img_path save_dir ext files = (Raised missing_metadata, files')"
    and "adjusted_path = os_path_join save_dir (fst (splitext (basename img_path)) @ ext)"
    and "ext = ''.webp'' \<or> cv2_imwrite e adjusted_path img \<noteq> NotWritten"
  shows "\<exists>buf. files' = files(adjusted_path \<mapsto> ImageFile buf) \<and> suffix ext adjusted_path"
  using assms suffix_join [of ext save_dir "fst (splitext (basename img_path))"]
  by (auto simp: save_image_and_meta_def Let_def missing_metadata_def
           split: if_splits imencode_result.splits imwrite_result.splits
           dest!: copy_meta_missing [unfolded missing_metadata_def])

theorem image_written_before_metadata_check_witness:
  "save_image_and_meta example_env small_image ''full/b.png'' ''out/full'' ''.jpg'' example_files
     = (Raised missing_metadata, example_files(''out/full/b.jpg'' \<mapsto> ImageFile small_image))
   \<and> (\<exists>buf. example_files(''out/full/b.jpg'' \<mapsto> ImageFile small_image)
            = example_files(''out/full/b.jpg'' \<mapsto> ImageFile buf)
          \<and> suffix ''.jpg'' ''out/full/b.jpg'')"
proof -
  have run: "save_image_and_meta example_env small_image ''full/b.png'' ''out/full'' ''.jpg''
               example_files
     = (Raised missing_metadata, example_files(''out/full/b.jpg'' \<mapsto> ImageFile small_image))"
    by (simp add: save_image_and_meta_def example_env_def basename_def splitext_def
          os_path_join_def copy_meta_def example_files_def Let_def suffix_to_prefix)
  have path: "''out/full/b.jpg''
      = os_path_join ''out/full'' (fst (splitext (basename ''full/b.png'')) @ ''.jpg'')"
    by (simp add: basename_def splitext_def os_path_join_def Let_def suffix_to_prefix)
  have wr: "''.jpg'' = ''.webp''
      \<or> cv2_imwrite example_env ''out/full/b.jpg'' small_image \<noteq> NotWritten"
    by (simp add: example_env_def)
  from image_written_before_metadata_check [OF run path wr] run show ?thesis by simp
qed

text \<open>
  C9 as stated fails: when \<^verbatim>\<open>cv2.imwrite\<close> returns \<^verbatim>\<open>False\<close>, which line 132 does not look
  at, the call still raises for the missing record, and there is no image at the
  destination: the files are as they were.
\<close>

theorem missing_metadata_without_image:
  "save_image_and_meta (example_env\<lparr>cv2_imwrite := (\<lambda>p img. NotWritten)\<rparr>)
       small_image ''full/b.png'' ''out/full'' ''.jpg'' example_files
     = (Raised missing_metadata, example_files)
   \<and> example_files ''out/full/b.jpg'' = None"
  by (simp add: save_image_and_meta_def example_env_def example_files_def Let_def copy_meta_def
       basename_def splitext_def os_path_join_def suffix_to_prefix)

lemma length_sample_loop: "length (sample_loop draw pool i r) = r"
  by (induction r arbitrary: pool i) (simp_all add: Let_def)

lemma sample_step_mset:
  assumes "0 < a" "a \<le> length pool" "j < a"
  shows "add_mset (pool ! j) (mset (take (a - 1) (pool[j := pool ! (a - 1)]))) = mset (take a pool)"
proof -
  obtain b where a: "a = Suc b" using assms(1) by (cases a) auto
  have tk: "take a pool = take b pool @ [pool ! b]"
    using assms(2) a by (simp add: take_Suc_conv_app_nth)
  show ?thesis
  proof (cases "j = b")
    case True
    then show ?thesis using a tk by simp
  next
    case False
    then have jb: "j < b" using assms(3) a by simp
    then have "j < length (take b pool)" using assms(2) a by simp
    moreover have "take b pool ! j = pool ! j" using jb by simp
    ultimately have "mset ((take b pool)[j := pool ! b])
        = add_mset (pool ! b) (mset (take b pool) - {#pool ! j#})"
      by (simp add: mset_update)
    moreover have "pool ! j \<in># mset (take b pool)"
      using \<open>j < length (take b pool)\<close> \<open>take b pool ! j = pool ! j\<close>
      by (metis nth_mem_mset)
    ultimately show ?thesis using a tk by (simp add: take_update_swap)
  qed
qed

lemma sample_loop_mset:
  "i + r \<le> length pool \<Longrightarrow>
     mset (sample_loop draw pool i r) \<subseteq># mset (take (length pool - i) pool)"
proof (induction r arbitrary: pool i)
  case 0
  then show ?case by simp
next
  case (Suc r)
  let ?a = "length pool - i"
  let ?j = "draw i mod ?a"
  let ?pool' = "pool[?j := pool ! (?a - 1)]"
  have a: "0 < ?a" "?a \<le> length pool" "?j < ?a" using Suc.prems by auto
  have "mset (sample_loop draw ?pool' (Suc i) r) \<subseteq># mset (take (length ?pool' - Suc i) ?pool')"
    using Suc.prems by (intro Suc.IH) simp
  then have "mset (sample_loop draw ?pool' (Suc i) r) \<subseteq># mset (take (?a - 1) ?pool')"
    by simp
  then have "add_mset (pool ! ?j) (mset (sample_loop draw ?pool' (Suc i) r))
      \<subseteq># add_mset (pool ! ?j) (mset (take (?a - 1) ?pool'))"
    by (simp only: mset_subset_eq_add_mset_cancel)
  also have "\<dots> = mset (take ?a pool)"
    by (rule sample_step_mset [OF a])
  finally have "mset (pool ! ?j # sample_loop draw ?pool' (Suc i) r) \<subseteq># mset (take ?a pool)"
    by (simp only: mset.simps)
  moreover have "sample_loop draw pool i (Suc r) = pool ! ?j # sample_loop draw ?pool' (Suc i) r"
    by (simp add: Let_def)
  ultimately show ?case by (simp only:)
qed

text \<open>
  C6. For a non-negative \<^verbatim>\<open>n_nocharacter_frames\<close> the selection of the no-character
  frames succeeds; the number of selected frames is the minimum of that number and the
  number of candidates; the selection takes no candidate more often than the list holds
  it (a sample without replacement); and it is the whole list of candidates when the
  number asked for is at least their number.
\<close>

theorem no_character_selection:
  assumes "0 \<le> n"
  shows "\<exists>selected. select_frames e n candidates = Inr selected
           \<and> int (length selected) = min n (int (length candidates))
           \<and> mset selected \<subseteq># mset candidates
           \<and> (int (length candidates) \<le> n \<longrightarrow> selected = candidates)"
proof (cases "n < int (length candidates)")
  case True
  then show ?thesis
    using assms sample_loop_mset [of 0 "nat n" candidates "rng e"]
    by (simp add: select_frames_def random_sample_def length_sample_loop)
next
  case False
  then show ?thesis by (simp add: select_frames_def)
qed

theorem no_character_selection_witness:
  "select_frames example_env 2 [''full/a.png'', ''full/b.png'', ''full/c.png'']
     = Inr [''full/a.png'', ''full/c.png'']
   \<and> select_frames example_env 5 [''full/a.png'', ''full/b.png'', ''full/c.png'']
     = Inr [''full/a.png'', ''full/b.png'', ''full/c.png'']"
proof -
  have "(0::int) \<le> 2" by simp
  from no_character_selection [OF this, of example_env
      "[''full/a.png'', ''full/b.png'', ''full/c.png'']"]
  show ?thesis
    by (simp add: select_frames_def random_sample_def example_env_def Let_def
          numeral_2_eq_2)
qed

section \<open>Missing metadata and failing encoders\<close>

lemmas sync_eval = save_characters_to_meta_def sync_image_def sync_crop_def update_original_def
  load_original_def add_character_def py_in_def py_append_def json_load_def
  char_name_of_def splitext_def os_path_join_def basename_def lower_def lower_char_def
  image_extensions_def suffix_to_prefix Let_def example_env_def









text \<open>
  The guarded branch: for the extension \<^verbatim>\<open>.webp\<close> a \<^verbatim>\<open>cv2.error\<close> of the encoder is caught,
  nothing is written, the call returns, and the loop over the selected frames goes on
  with the next one.
\<close>

lemma webp_encode_error_skips:
  assumes "cv2_imencode e ''.webp'' img = EncodeError"
    and "resize_image e (cv2_imread files img_path) max_size = Inr img"
  shows "save_image_and_meta e img img_path save_dir ''.webp'' files = (Returned, files)
       \<and> export_frames e dst_dir max_size ''.webp'' (img_path # rest) files
           = export_frames e dst_dir max_size ''.webp'' rest files"
  using assms by (simp add: save_image_and_meta_def Let_def)

text \<open>
  C8. The code does not keep an encoding failure from being fatal, and does not skip the
  pair, outside that branch. For the extension \<^verbatim>\<open>.jpg\<close>: an exception of \<^verbatim>\<open>cv2.imwrite\<close>
  is not caught, the call raises, and the loop over two selected frames ends at the first
  with nothing exported; when \<^verbatim>\<open>cv2.imwrite\<close> fails by returning \<^verbatim>\<open>False\<close>, the metadata
  record is written to the destination although the image is not. For \<^verbatim>\<open>.webp\<close>: when
  the encoder fails by returning \<^verbatim>\<open>False\<close>, the call raises \<^verbatim>\<open>AttributeError\<close> and leaves
  an empty file.
\<close>

theorem imwrite_failure_not_skipped:
  "save_image_and_meta (example_env\<lparr>cv2_imwrite := (\<lambda>p img. WriteError)\<rparr>)
       small_image ''crops/a.png'' ''out/cropped'' ''.jpg'' example_files
     = (Raised CvError, example_files)
   \<and> export_frames (example_env\<lparr>cv2_imwrite := (\<lambda>p img. WriteError)\<rparr>)
       ''out'' 512 ''.jpg'' [''full/f.png'', ''crops/a.png''] example_files
     = (Raised CvError, example_files)
   \<and> save_image_and_meta (example_env\<lparr>cv2_imwrite := (\<lambda>p img. NotWritten)\<rparr>)
       small_image ''crops/a.png'' ''out/cropped'' ''.jpg'' example_files
     = (Returned, example_files(''out/cropped/a.png.json'' \<mapsto>
          JsonFile (crop_record(''filename'' \<mapsto> JStr ''a.jpg''))))
   \<and> save_image_and_meta (example_env\<lparr>cv2_imencode := (\<lambda>ext img. EncodeFalse)\<rparr>)
       small_image ''crops/a.png'' ''out/cropped'' ''.webp'' example_files
     = (Raised AttributeError, example_files(''out/cropped/a.webp'' \<mapsto> EmptyFile))"
  by (simp add: save_image_and_meta_def example_env_def example_files_def Let_def copy_meta_def
       json_load_def crop_record_def basename_def splitext_def os_path_join_def suffix_to_prefix
       replace.simps resize_image_def cv2_imread_def large_image_def small_image_def)

text \<open>
  C2. The exported image is written under a name that ends in the requested extension.
  The \<^verbatim>\<open>filename\<close> of the exported record is rewritten by replacing \<^verbatim>\<open>.png\<close> only:
  for a source named \<^verbatim>\<open>b.jpg\<close> and the extension \<^verbatim>\<open>.webp\<close> the image goes to
  \<^verbatim>\<open>b.webp\<close> and the record still says \<^verbatim>\<open>b.jpg\<close>.
\<close>

theorem metadata_filename_keeps_extension:
  "save_image_and_meta example_env small_image ''full/b.jpg'' ''out/full'' ''.webp''
       [''full/b.jpg.json'' \<mapsto> JsonFile [''filename'' \<mapsto> JStr ''b.jpg'']]
     = (Returned,
        [''full/b.jpg.json'' \<mapsto> JsonFile [''filename'' \<mapsto> JStr ''b.jpg''],
         ''out/full/b.webp'' \<mapsto> ImageFile small_image,
         ''out/full/b.jpg.json'' \<mapsto> JsonFile [''filename'' \<mapsto> JStr ''b.jpg'']])
   \<and> \<not> suffix ''.webp'' ''b.jpg''"
  by (simp add: save_image_and_meta_def example_env_def Let_def copy_meta_def
       json_load_def basename_def splitext_def os_path_join_def suffix_to_prefix
       replace.simps)

section \<open>Properties of \<^verbatim>\<open>resize_image\<close>\<close>

lemma cvRound_of_int: "cvRound (of_int k) = k"
  by (simp add: cvRound_def)

lemma cvRound_near:
  assumes "\<bar>x - of_int k\<bar> < 1 / 2"
  shows "cvRound x = k"
proof -
  have "of_int k - 1 / 2 < x" "x < of_int k + 1 / 2" using assms by linarith+
  then have "\<lfloor>x\<rfloor> = k \<or> \<lfloor>x\<rfloor> = k - 1" by (simp add: floor_eq_iff) linarith
  then show ?thesis
  proof
    assume f: "\<lfloor>x\<rfloor> = k"
    then have "x - of_int k < 1 / 2" using \<open>x < of_int k + 1 / 2\<close> by simp
    then show ?thesis using f by (simp add: cvRound_def)
  next
    assume f: "\<lfloor>x\<rfloor> = k - 1"
    then have "1 / 2 < x - of_int (k - 1)" using \<open>of_int k - 1 / 2 < x\<close> by simp
    then show ?thesis using f by (simp add: cvRound_def)
  qed
qed

lemma cvRound_error: "\<bar>of_int (cvRound x) - x\<bar> \<le> 1 / 2"
proof -
  have "of_int \<lfloor>x\<rfloor> \<le> x" "x < of_int \<lfloor>x\<rfloor> + 1" by linarith+
  then show ?thesis by (auto simp: cvRound_def Let_def abs_le_iff)
qed

lemma cvRound_lower:
  assumes "of_int k - 1 / 2 < x"
  shows "k \<le> cvRound x"
proof -
  have "\<bar>of_int (cvRound x) - x\<bar> \<le> 1 / 2" by (rule cvRound_error)
  then have "x - 1 / 2 \<le> of_int (cvRound x)" by linarith
  then have "(of_int k :: rat) - 1 < of_int (cvRound x)" using assms by linarith
  then have "(of_int (k - 1) :: rat) < of_int (cvRound x)" by simp
  then have "k - 1 < cvRound x" by (simp only: of_int_less_iff)
  then show ?thesis by simp
qed

lemma double_rounding_pos:
  assumes "double_rounding f" and "1 / 2 ^ 64 \<le> x" and "x \<le> 2 ^ 64"
  shows "\<bar>f x - x\<bar> * 2 ^ 53 \<le> x"
proof -
  have "(0::rat) < 1 / 2 ^ 64" by simp
  then have "0 < x" using assms(2) by linarith
  then have ax: "\<bar>x\<bar> = x" by simp
  from assms(1) have "1 / 2 ^ 64 \<le> \<bar>x\<bar> \<and> \<bar>x\<bar> \<le> 2 ^ 64 \<longrightarrow> \<bar>f x - x\<bar> * 2 ^ 53 \<le> \<bar>x\<bar>"
    unfolding double_rounding_def by blast
  then show ?thesis using assms(2,3) by (simp only: ax)
qed

lemma double_rounding_int:
  assumes "double_rounding f" and "\<bar>n\<bar> \<le> 2 ^ 53"
  shows "f (of_int n) = of_int n"
  using assms unfolding double_rounding_def by blast

lemma scaled_error:
  fixes q s L U :: rat
  assumes "2 \<le> U" and "0 < q" and "\<bar>s - q\<bar> * U \<le> q" and "1 \<le> L"
  shows "q / 2 \<le> L * s" and "L * s \<le> 2 * (L * q)" and "\<bar>L * s - L * q\<bar> * U \<le> L * q"
proof -
  define a where "a = \<bar>s - q\<bar>"
  have a0: "0 \<le> a" and a1: "s - q \<le> a" and a2: "q - s \<le> a"
    by (simp_all add: a_def)
  have "a * 2 \<le> a * U" using assms(1) a0 by (intro mult_left_mono) auto
  moreover have "a * U \<le> q" using assms(3) by (simp only: a_def)
  ultimately have d: "a * 2 \<le> q" by (rule order_trans)
  have lo: "q / 2 \<le> s" using d a2 by linarith
  have hi: "s \<le> 2 * q" using d a1 a0 by linarith
  have L0: "0 < L" using assms(4) by linarith
  have "1 * s \<le> L * s" using assms(4) lo assms(2) by (intro mult_right_mono) auto
  then show "q / 2 \<le> L * s" using lo by simp
  have "L * s \<le> L * (2 * q)" using L0 hi by (intro mult_left_mono) auto
  then show "L * s \<le> 2 * (L * q)" by (simp add: mult_ac)
  have "\<bar>L * s - L * q\<bar> = L * \<bar>s - q\<bar>"
    using L0 by (simp add: abs_mult right_diff_distrib [symmetric])
  then have "\<bar>L * s - L * q\<bar> * U = L * (\<bar>s - q\<bar> * U)" by simp
  also have "\<dots> \<le> L * q" using L0 assms(3) by (intro mult_left_mono) auto
  finally show "\<bar>L * s - L * q\<bar> * U \<le> L * q" .
qed

lemma two_roundings:
  fixes t p a U :: rat
  assumes "\<bar>t - p\<bar> * U \<le> p" and "\<bar>p - a\<bar> * U \<le> a" and "p \<le> 2 * a" and "0 < U"
  shows "\<bar>t - a\<bar> * U \<le> 3 * a"
proof -
  have "\<bar>t - a\<bar> \<le> \<bar>t - p\<bar> + \<bar>p - a\<bar>" by simp
  then have "\<bar>t - a\<bar> * U \<le> (\<bar>t - p\<bar> + \<bar>p - a\<bar>) * U"
    using assms(4) by (intro mult_right_mono) auto
  also have "\<dots> = \<bar>t - p\<bar> * U + \<bar>p - a\<bar> * U" by (simp add: distrib_right)
  also have "\<dots> \<le> p + a" using assms(1,2) by linarith
  also have "\<dots> \<le> 3 * a" using assms(3) by linarith
  finally show ?thesis .
qed

lemma round_chain:
  fixes f :: "rat \<Rightarrow> rat" and q L :: rat
  assumes dr: "double_rounding f"
    and q: "1 / 2 ^ 31 \<le> q" "q \<le> 1"
    and L: "1 \<le> L" "L \<le> 2 ^ 31"
  shows "\<bar>f (L * f q) - L * q\<bar> * 2 ^ 53 \<le> 3 * (L * q)"
proof -
  define U :: rat where "U = 2 ^ 53"
  have U2: "2 \<le> U" and U0: "0 < U" by (simp_all add: U_def)
  have "(0::rat) < 1 / 2 ^ 31" by simp
  then have q0: "0 < q" using q(1) by linarith
  have "(1::rat) / 2 ^ 64 \<le> 1 / 2 ^ 31" by simp
  then have q1: "1 / 2 ^ 64 \<le> q" using q(1) by (rule order_trans)
  have "(1::rat) \<le> 2 ^ 64" by simp
  with q(2) have q2: "q \<le> 2 ^ 64" by (rule order_trans)
  have e1: "\<bar>f q - q\<bar> * U \<le> q"
    unfolding U_def by (rule double_rounding_pos [OF dr q1 q2])
  note se = scaled_error [OF U2 q0 e1 L(1)]
  have L0: "0 < L" using L(1) by linarith
  have "L * q \<le> L * 1" using L0 q(2) by (intro mult_left_mono) auto
  then have Lq: "L * q \<le> 2 ^ 31" using L(2) by simp
  have "(1::rat) / 2 ^ 64 \<le> (1 / 2 ^ 31) / 2" by simp
  also have "\<dots> \<le> q / 2" using q(1) by (rule divide_right_mono) simp
  also have "\<dots> \<le> L * f q" by (rule se(1))
  finally have r1: "1 / 2 ^ 64 \<le> L * f q" .
  have "L * f q \<le> 2 * (L * q)" by (rule se(2))
  also have "\<dots> \<le> 2 * 2 ^ 31" using Lq by (intro mult_left_mono) auto
  also have "\<dots> \<le> (2::rat) ^ 64" by simp
  finally have r2: "L * f q \<le> 2 ^ 64" .
  have e2: "\<bar>f (L * f q) - L * f q\<bar> * U \<le> L * f q"
    unfolding U_def by (rule double_rounding_pos [OF dr r1 r2])
  have "\<bar>f (L * f q) - L * q\<bar> * U \<le> 3 * (L * q)"
    by (rule two_roundings [OF e2 se(3) se(2) U0])
  then show ?thesis by (simp only: U_def)
qed

lemma scaled_dim:
  fixes f :: "rat \<Rightarrow> rat" and M :: int and m L :: nat
  assumes dr: "double_rounding f"
    and M: "1 \<le> M" "M \<le> int m"
    and L: "m \<le> L" "L < 2 ^ 31"
  defines "q \<equiv> rat_of_int M / rat_of_nat m"
  defines "D \<equiv> cvRound (f (rat_of_nat L * f q))"
  shows "M \<le> D" and "\<bar>rat_of_int D - rat_of_nat L * q\<bar> < 1" and "L = m \<Longrightarrow> D = M"
proof -
  have m1: "1 \<le> m" using M by linarith
  have mr: "(0::rat) < of_nat m" "(1::rat) \<le> of_nat m" using m1 by simp_all
  have Mr: "(1::rat) \<le> of_int M" using M(1) by simp
  have "m < 2 ^ 31" using L by linarith
  then have "rat_of_nat m < of_nat (2 ^ 31)" by (simp only: of_nat_less_iff)
  then have mlt: "rat_of_nat m \<le> 2 ^ 31" by simp
  have "rat_of_nat L < of_nat (2 ^ 31)" using L(2) by (simp only: of_nat_less_iff)
  then have Llt: "rat_of_nat L \<le> 2 ^ 31" by simp
  have L1: "(1::rat) \<le> of_nat L" using m1 L(1) by simp
  have q_lo: "1 / 2 ^ 31 \<le> q"
    unfolding q_def using Mr mlt mr(1) by (intro frac_le) auto
  have "rat_of_int M \<le> of_int (int m)" using M(2) by (simp only: of_int_le_iff)
  then have Mm: "rat_of_int M \<le> of_nat m" by simp
  then have q_hi: "q \<le> 1" unfolding q_def using mr(1) by (simp add: divide_le_eq)
  have q0: "0 < q" unfolding q_def using Mr mr(1) by simp
  have mq: "rat_of_nat m * q = of_int M" unfolding q_def using mr(1) by simp
  have "rat_of_nat m * q \<le> rat_of_nat L * q"
    using L(1) q0 by (intro mult_right_mono) auto
  then have Lq_lo: "rat_of_int M \<le> rat_of_nat L * q" using mq by simp
  have "rat_of_nat L * q \<le> rat_of_nat L * 1"
    using q_hi L1 by (intro mult_left_mono) auto
  then have Lq_hi: "rat_of_nat L * q \<le> 2 ^ 31" using Llt by simp
  have ch: "\<bar>f (rat_of_nat L * f q) - rat_of_nat L * q\<bar> * 2 ^ 53 \<le> 3 * (rat_of_nat L * q)"
    by (rule round_chain [OF dr q_lo q_hi L1 Llt])
  define t where "t = f (rat_of_nat L * f q)"
  define a where "a = rat_of_nat L * q"
  define d where "d = \<bar>t - a\<bar>"
  have "d * 2 ^ 53 \<le> 3 * a" using ch by (simp only: d_def t_def a_def)
  moreover have "3 * a \<le> 3 * 2 ^ 31"
  proof -
    have "a \<le> 2 ^ 31" using Lq_hi by (simp only: a_def)
    then show ?thesis by (intro mult_left_mono) auto
  qed
  ultimately have "d * 2 ^ 53 \<le> 3 * 2 ^ 31" by (rule order_trans)
  then have "d \<le> 3 * 2 ^ 31 / 2 ^ 53" by (simp add: pos_le_divide_eq)
  moreover have "(3::rat) * 2 ^ 31 / 2 ^ 53 < 1 / 2" by simp
  ultimately have dh: "d < 1 / 2" by (rule le_less_trans)
  have d1: "t - a \<le> d" and d2: "a - t \<le> d" by (simp_all add: d_def)
  have D: "D = cvRound t" by (simp add: D_def t_def)
  have "rat_of_int M \<le> a" using Lq_lo by (simp only: a_def)
  then have "rat_of_int M - 1 / 2 < t" using d2 dh by linarith
  then show "M \<le> D" unfolding D by (rule cvRound_lower)
  define c where "c = \<bar>rat_of_int (cvRound t) - t\<bar>"
  have c: "c \<le> 1 / 2" unfolding c_def by (rule cvRound_error)
  have "\<bar>rat_of_int (cvRound t) - a\<bar> \<le> c + d"
    unfolding c_def d_def by simp
  then have "\<bar>rat_of_int (cvRound t) - a\<bar> < 1" using c dh by linarith
  then show "\<bar>rat_of_int D - rat_of_nat L * q\<bar> < 1" by (simp only: D a_def)
  show "D = M" if "L = m"
  proof -
    have "a = of_int M" using that mq by (simp add: a_def)
    then have "\<bar>t - of_int M\<bar> < 1 / 2" using dh by (simp add: d_def)
    then show ?thesis unfolding D by (rule cvRound_near)
  qed
qed

lemma exact_dim:
  fixes f :: "rat \<Rightarrow> rat" and L :: nat
  assumes dr: "double_rounding f" and L: "L < 2 ^ 31" and m: "0 < m"
  shows "cvRound (f (rat_of_nat L * f (rat_of_int (int m) / rat_of_nat m))) = int L"
proof -
  have "rat_of_int (int m) / rat_of_nat m = of_int 1" using m by simp
  moreover have "f (of_int 1) = of_int 1"
    by (rule double_rounding_int [OF dr]) simp
  ultimately have s: "f (rat_of_int (int m) / rat_of_nat m) = 1" by simp
  have "int L < int (2 ^ 31)" using L by (simp only: of_nat_less_iff)
  then have "int L < 2 ^ 31" by simp
  moreover have "(2::int) ^ 31 \<le> 2 ^ 53" by simp
  ultimately have "int L \<le> 2 ^ 53" by linarith
  then have "\<bar>int L\<bar> \<le> 2 ^ 53" by simp
  then have "f (of_int (int L)) = of_int (int L)" by (rule double_rounding_int [OF dr])
  then have "f (rat_of_nat L * 1) = of_int (int L)" by simp
  then have "cvRound (f (rat_of_nat L * 1)) = int L" by (simp only: cvRound_of_int)
  then show ?thesis by (simp only: s)
qed


text \<open>
  C5. For a positive \<^verbatim>\<open>max_size\<close> and an image whose sides fit a C \<^verbatim>\<open>int\<close>,
  \<^verbatim>\<open>resize_image\<close> returns an image whose shorter side is at most \<^verbatim>\<open>max_size\<close>; when
  the shorter side of the input is at most \<^verbatim>\<open>max_size\<close> the result is the input itself;
  and when the image is scaled down, both sides are scaled by the one factor
  \<^verbatim>\<open>max_size\<close> over the shorter side, each to within one pixel of rounding. The doubles
  of the computation are any rounding with the error bound of \<open>double_rounding\<close>.
\<close>

theorem resize_image_bounds:
  assumes dr: "double_rounding (fl e)" and pos: "0 < max_size"
    and hb: "height img < 2 ^ 31" and wb: "width img < 2 ^ 31"
  shows "\<exists>out. resize_image e (Some img) max_size = Inr out
     \<and> int (min (height out) (width out)) \<le> max_size
     \<and> (int (min (height img) (width img)) \<le> max_size \<longrightarrow> out = img)
     \<and> (max_size < int (min (height img) (width img)) \<longrightarrow>
          \<bar>rat_of_nat (width out) - rat_of_nat (width img)
             * (rat_of_int max_size / rat_of_nat (min (height img) (width img)))\<bar> < 1
        \<and> \<bar>rat_of_nat (height out) - rat_of_nat (height img)
             * (rat_of_int max_size / rat_of_nat (min (height img) (width img)))\<bar> < 1)"
proof (cases "int (min (height img) (width img)) < max_size")
  case True
  then have "resize_image e (Some img) max_size = Inr img"
    by (simp add: resize_image_def Let_def)
  then show ?thesis using True by simp
next
  case False
  define m where "m = min (height img) (width img)"
  define q where "q = rat_of_int max_size / rat_of_nat m"
  define Dw where "Dw = cvRound (fl e (rat_of_nat (width img) * fl e q))"
  define Dh where "Dh = cvRound (fl e (rat_of_nat (height img) * fl e q))"
  have M: "1 \<le> max_size" "max_size \<le> int m" using pos False by (simp_all add: m_def)
  have m0: "0 < m" using M by linarith
  have mw: "m \<le> width img" and mh: "m \<le> height img" by (simp_all add: m_def)
  note w = scaled_dim [OF dr M mw wb, folded q_def, folded Dw_def]
  note h = scaled_dim [OF dr M mh hb, folded q_def, folded Dh_def]
  have Dw0: "0 < Dw" and Dh0: "0 < Dh" using w(1) h(1) M(1) by linarith+
  have dims: "0 < width img" "0 < height img" using m0 mw mh by linarith+
  define out where "out = (if Dw = int (width img) \<and> Dh = int (height img) then img
      else \<lparr>height = nat Dh, width = nat Dw,
             pixels = inter_area e img (nat Dh) (nat Dw)\<rparr>)"
  have res: "resize_image e (Some img) max_size = Inr out"
    using False m0 Dw0 Dh0 dims
    by (simp add: resize_image_def cv2_resize_def Let_def m_def [symmetric] q_def [symmetric]
          Dw_def [symmetric] Dh_def [symmetric] out_def)
  have ow: "int (width out) = Dw" and oh: "int (height out) = Dh"
    using Dw0 Dh0 by (auto simp: out_def)
  have "m = width img \<or> m = height img" by (auto simp: m_def min_def)
  then have "Dw = max_size \<or> Dh = max_size" using w(3) h(3) by auto
  then have "min Dh Dw = max_size" using w(1) h(1) by (auto simp: min_def)
  then have "int (min (height out) (width out)) = max_size"
    using ow oh by (simp add: min_def split: if_splits)
  then have c1: "int (min (height out) (width out)) \<le> max_size" by simp
  have c2: "out = img" if "int m \<le> max_size"
  proof -
    have eq: "max_size = int m" using that M(2) by simp
    have "Dw = int (width img)"
      unfolding Dw_def q_def eq by (rule exact_dim [OF dr wb m0])
    moreover have "Dh = int (height img)"
      unfolding Dh_def q_def eq by (rule exact_dim [OF dr hb m0])
    ultimately show ?thesis by (simp add: out_def)
  qed
  have "rat_of_nat (width out) = rat_of_int Dw" using ow by (metis of_int_of_nat_eq)
  then have c3: "\<bar>rat_of_nat (width out) - rat_of_nat (width img) * q\<bar> < 1"
    using w(2) by simp
  have "rat_of_nat (height out) = rat_of_int Dh" using oh by (metis of_int_of_nat_eq)
  then have c4: "\<bar>rat_of_nat (height out) - rat_of_nat (height img) * q\<bar> < 1"
    using h(2) by simp
  show ?thesis
    using res c1 c2 c3 c4 unfolding q_def m_def by blast
qed

theorem resize_image_bounds_witness:
  "resize_image example_env (Some \<lparr>height = 4, width = 6, pixels = []\<rparr>) 2
     = Inr \<lparr>height = 2, width = 3, pixels = []\<rparr>
   \<and> resize_image example_env (Some \<lparr>height = 4, width = 6, pixels = []\<rparr>) 4
     = Inr \<lparr>height = 4, width = 6, pixels = []\<rparr>"
proof -
  have dr: "double_rounding (fl example_env)"
    by (simp add: double_rounding_def example_env_def)
  have pos: "(0::int) < 2" by simp
  have hb: "height \<lparr>height = 4, width = 6, pixels = []\<rparr> < 2 ^ 31" by simp
  have wb: "width \<lparr>height = 4, width = 6, pixels = []\<rparr> < 2 ^ 31" by simp
  have r1: "resize_image example_env (Some \<lparr>height = 4, width = 6, pixels = []\<rparr>) 2
     = Inr \<lparr>height = 2, width = 3, pixels = []\<rparr>"
    by (simp add: resize_image_def cv2_resize_def cvRound_def example_env_def Let_def)
  have r2: "resize_image example_env (Some \<lparr>height = 4, width = 6, pixels = []\<rparr>) 4
     = Inr \<lparr>height = 4, width = 6, pixels = []\<rparr>"
    by (simp add: resize_image_def cv2_resize_def cvRound_def example_env_def Let_def)
  from resize_image_bounds [OF dr pos hb wb] r1 r2 show ?thesis by simp
qed

section \<open>Properties of the label synchronizer\<close>

lemma run_jobs_append:
  "run_jobs e (xs @ ys) st =
     (case run_jobs e xs st of
        (Raised err, st') \<Rightarrow> (Raised err, st')
      | (Returned, st') \<Rightarrow> run_jobs e ys st')"
  by (induction xs arbitrary: st) (auto split: prod.splits outcome.splits)

lemma sync_files_jobs:
  "sync_files e folder_path char_name img_files st
     = run_jobs e (jobs_of_files e folder_path char_name img_files) st"
  by (induction img_files arbitrary: st)
     (auto simp: jobs_of_files_def sync_image_def split: prod.splits outcome.splits)

lemma sync_folders_jobs:
  "sync_folders e crop_dir folders st = run_jobs e (jobs_of e crop_dir folders) st"
proof (induction folders arbitrary: st)
  case Nil
  then show ?case by (simp add: jobs_of_def)
next
  case (Cons entry folders)
  obtain folder_name listing where entry: "entry = (folder_name, listing)" by (cases entry)
  have js: "jobs_of e crop_dir (entry # folders)
      = jobs_of_folder e crop_dir entry @ jobs_of e crop_dir folders"
    by (simp add: jobs_of_def)
  show ?case
    unfolding js run_jobs_append
    using Cons.IH
    by (auto simp: entry jobs_of_folder_def Let_def sync_files_jobs
             split: option.splits prod.splits outcome.splits)
qed

lemma strip_meta_upd: "strip_meta m1 = strip_meta m2 \<Longrightarrow> m1(''characters'' \<mapsto> v) = m2(''characters'' \<mapsto> v)"
proof -
  assume "strip_meta m1 = strip_meta m2"
  then have "(strip_meta m1)(''characters'' \<mapsto> v) = (strip_meta m2)(''characters'' \<mapsto> v)"
    by simp
  then show ?thesis by (simp add: strip_meta_def)
qed

lemma strip_meta_path: "strip_meta m1 = strip_meta m2 \<Longrightarrow> m1 ''path'' = m2 ''path''"
proof -
  assume "strip_meta m1 = strip_meta m2"
  then have "strip_meta m1 ''path'' = strip_meta m2 ''path''" by simp
  then show ?thesis by (simp add: strip_meta_def)
qed

lemma strip_meta_set [simp]: "strip_meta (m(''characters'' \<mapsto> v)) = strip_meta m"
  by (simp add: strip_meta_def)

lemma strip_Json: "strip f = strip (JsonFile m) \<Longrightarrow> \<exists>m'. f = JsonFile m' \<and> strip_meta m' = strip_meta m"
  by (cases f) (auto simp: strip_def)

lemma strip_Image: "strip f = strip (ImageFile i) \<Longrightarrow> f = ImageFile i"
  by (cases f) (auto simp: strip_def)

lemma add_character_first:
  "strip_meta l1 = strip_meta l2 \<Longrightarrow> add_character c True l1 = add_character c True l2"
  by (simp add: add_character_def strip_meta_upd [of l1 l2])

lemma add_character_strip:
  "add_character c b l = Inr m \<Longrightarrow> strip_meta m = strip_meta l"
  by (auto simp: add_character_def Let_def split: if_splits option.splits sum.splits bool.splits)

lemma add_character_first_ok: "\<exists>m. add_character c True l = Inr m"
  by (simp add: add_character_def py_in_def py_append_def)

lemma sync_crop_Raised:
  "sync_crop e c P (enc, A) = (Raised err, enc', A') \<Longrightarrow> A' = A"
  by (auto simp: sync_crop_def update_original_def Let_def
           split: option.splits sum.splits json.splits prod.splits outcome.splits)

lemma sync_crop_None:
  "A P = None \<Longrightarrow> sync_crop e c P (enc, A) = (Raised missing_crop_metadata, enc, A)"
  by (simp add: sync_crop_def)

lemma sync_crop_no_path:
  "A P = Some (JsonFile m) \<Longrightarrow> m ''path'' = None \<Longrightarrow>
     sync_crop e c P (enc, A)
       = (Returned, enc, A(P \<mapsto> JsonFile (m(''characters'' \<mapsto> JArr [JStr c]))))"
  by (simp add: sync_crop_def json_load_def)

lemma sync_crop_path:
  "A P = Some (JsonFile m) \<Longrightarrow> m ''path'' = Some (JStr F) \<Longrightarrow>
   load_original e F A = Inr l \<Longrightarrow> add_character c (F \<notin> enc) l = Inr m' \<Longrightarrow>
     sync_crop e c P (enc, A)
       = (Returned, insert F enc,
          A(fst (get_corr_meta_names e F) \<mapsto> JsonFile m',
            P \<mapsto> JsonFile (m(''characters'' \<mapsto> JArr [JStr c]))))"
  by (simp add: sync_crop_def json_load_def update_original_def)

lemma sync_crop_Returned:
  assumes "sync_crop e c P (enc, A) = (Returned, enc', A')"
  obtains
    (no_path) m where "A P = Some (JsonFile m)" "m ''path'' = None" "enc' = enc"
      "A' = A(P \<mapsto> JsonFile (m(''characters'' \<mapsto> JArr [JStr c])))"
  | (path) m F l m' where "A P = Some (JsonFile m)" "m ''path'' = Some (JStr F)"
      "load_original e F A = Inr l" "add_character c (F \<notin> enc) l = Inr m'"
      "enc' = insert F enc"
      "A' = A(fst (get_corr_meta_names e F) \<mapsto> JsonFile m',
              P \<mapsto> JsonFile (m(''characters'' \<mapsto> JArr [JStr c])))"
proof (cases "A P")
  case None
  then show ?thesis using assms by (simp add: sync_crop_def)
next
  case (Some f)
  show ?thesis
  proof (cases f)
    case (ImageFile img)
    then show ?thesis using assms Some by (simp add: sync_crop_def json_load_def)
  next
    case EmptyFile
    then show ?thesis using assms Some by (simp add: sync_crop_def json_load_def)
  next
    case (JsonFile m)
    note AP = Some [unfolded JsonFile]
    show ?thesis
    proof (cases "m ''path''")
      case None
      then show ?thesis
        using assms AP no_path [of m] by (simp add: sync_crop_no_path)
    next
      case (Some pv)
      then have up: "(case update_original e c pv (enc, A) of
                 (Raised err, st') \<Rightarrow> (Raised err, st')
               | (Returned, encountered, files') \<Rightarrow>
                   (Returned, encountered,
                    files'(P \<mapsto> JsonFile (m(''characters'' \<mapsto> JArr [JStr c])))))
               = (Returned, enc', A')"
        using assms AP by (simp add: sync_crop_def json_load_def)
      then obtain F where pv: "pv = JStr F"
        by (cases pv) (simp_all add: update_original_def)
      obtain l where l: "load_original e F A = Inr l"
        using up pv by (cases "load_original e F A") (simp_all add: update_original_def)
      obtain m' where m': "add_character c (F \<notin> enc) l = Inr m'"
        using up pv l
        by (cases "add_character c (F \<notin> enc) l") (simp_all add: update_original_def)
      have "enc' = insert F enc"
        and "A' = A(fst (get_corr_meta_names e F) \<mapsto> JsonFile m',
              P \<mapsto> JsonFile (m(''characters'' \<mapsto> JArr [JStr c])))"
        using up pv l m' by (simp_all add: update_original_def)
      then show ?thesis using path [of m F l m'] AP Some pv l m' by simp
    qed
  qed
qed

lemma strip_relabel [simp]:
  "strip (JsonFile (m(''characters'' \<mapsto> v))) = strip (JsonFile m)"
  by (simp add: strip_def)

lemma load_original_Some:
  "A (fst (get_corr_meta_names e F)) = Some f \<Longrightarrow> load_original e F A = Inr l \<Longrightarrow> f = JsonFile l"
  by (cases f) (simp_all add: load_original_def json_load_def)

lemma load_original_None:
  "A (fst (get_corr_meta_names e F)) = None \<Longrightarrow> load_original e F A = Inr (default_metadata e F)"
  by (simp add: load_original_def)

lemma sync_crop_preserves:
  assumes "sync_crop e c P (enc, A) = (res, enc', A')" and "A Q = Some f"
  shows "\<exists>f'. A' Q = Some f' \<and> strip f' = strip f"
proof (cases res)
  case (Raised err)
  then show ?thesis using assms sync_crop_Raised by fastforce
next
  case Returned
  from assms(1) [unfolded Returned] show ?thesis
  proof (cases rule: sync_crop_Returned)
    case (no_path m)
    then show ?thesis using assms(2) by auto
  next
    case (path m F l m')
    show ?thesis
    proof (cases "Q = P")
      case True
      then show ?thesis using path assms(2) by auto
    next
      case False
      show ?thesis
      proof (cases "Q = fst (get_corr_meta_names e F)")
        case True
        then have "f = JsonFile l" using assms(2) path(3) load_original_Some by blast
        moreover have "strip_meta m' = strip_meta l" using path(4) by (rule add_character_strip)
        ultimately show ?thesis using path(6) True False by (simp add: strip_def)
      next
        case False
        then show ?thesis using path(6) \<open>Q \<noteq> P\<close> assms(2) by simp
      qed
    qed
  qed
qed

lemma run_jobs_preserves:
  "run_jobs e js (enc, A) = (res, enc', A') \<Longrightarrow> A Q = Some f \<Longrightarrow>
     \<exists>f'. A' Q = Some f' \<and> strip f' = strip f"
proof (induction js arbitrary: enc A f)
  case Nil
  then show ?case by simp
next
  case (Cons j js)
  obtain c P where j: "j = (c, P)" by (cases j)
  obtain r enc1 A1 where step: "sync_crop e c P (enc, A) = (r, enc1, A1)"
    by (cases "sync_crop e c P (enc, A)")
  from sync_crop_preserves [OF step Cons.prems(2)]
  obtain f1 where f1: "A1 Q = Some f1" "strip f1 = strip f" by blast
  show ?case
  proof (cases r)
    case (Raised err)
    then have "A' = A1" using Cons.prems(1) step j by simp
    then show ?thesis using f1 by simp
  next
    case Returned
    then have "run_jobs e js (enc1, A1) = (res, enc', A')"
      using Cons.prems(1) step j by simp
    from Cons.IH [OF this f1(1)] f1(2) show ?thesis by simp
  qed
qed

lemma load_original_cong:
  "A (fst (get_corr_meta_names e F)) = B (fst (get_corr_meta_names e F)) \<Longrightarrow>
     load_original e F B = load_original e F A"
  by (simp add: load_original_def)

lemma load_original_Json:
  "B (fst (get_corr_meta_names e F)) = Some (JsonFile l) \<Longrightarrow> load_original e F B = Inr l"
  by (simp add: load_original_def json_load_def)

lemma run_jobs_again:
  assumes "run_jobs e js (enc, A) = (res, enc1, A1)"
    and "\<forall>Q\<in>W. A Q = B Q"
    and "\<forall>Q. Q \<notin> W \<longrightarrow> B Q = A1 Q"
    and "\<forall>F\<in>enc. fst (get_corr_meta_names e F) \<in> W"
  shows "run_jobs e js (enc, B) = (res, enc1, A1)"
  using assms
proof (induction js arbitrary: enc A B W)
  case Nil
  then have "A1 = A" by simp
  then have "B = A" using Nil.prems(2,3) by (intro ext) metis
  then show ?case using Nil.prems(1) by simp
next
  case (Cons j js)
  obtain c P where j: "j = (c, P)" by (cases j)
  obtain r enc' A' where step: "sync_crop e c P (enc, A) = (r, enc', A')"
    by (cases "sync_crop e c P (enc, A)")
  show ?case
  proof (cases r)
    case (Raised err)
    then have "A' = A" using step sync_crop_Raised by blast
    moreover have "A1 = A'" using Cons.prems(1) step j Raised by simp
    ultimately have "A1 = A" by simp
    then have "B = A" using Cons.prems(2,3) by (intro ext) metis
    then show ?thesis using Cons.prems(1) by simp
  next
    case Returned
    have rest: "run_jobs e js (enc', A') = (res, enc1, A1)"
      using Cons.prems(1) step j Returned by simp
    have whole: "run_jobs e ((c, P) # js) (enc, A) = (res, enc1, A1)"
      using Cons.prems(1) j by simp
    have crop: "\<exists>mB. B P = Some (JsonFile mB) \<and> strip_meta mB = strip_meta m"
      if AP: "A P = Some (JsonFile m)" for m
    proof (cases "P \<in> W")
      case True
      then show ?thesis using Cons.prems(2) AP by auto
    next
      case False
      then have "B P = A1 P" using Cons.prems(3) by simp
      moreover obtain f1 where "A1 P = Some f1" "strip f1 = strip (JsonFile m)"
        using run_jobs_preserves [OF whole AP] by blast
      ultimately show ?thesis using strip_Json by fastforce
    qed
    from step [unfolded Returned] show ?thesis
    proof (cases rule: sync_crop_Returned)
      case (no_path m)
      obtain mB where mB: "B P = Some (JsonFile mB)" "strip_meta mB = strip_meta m"
        using crop [OF no_path(1)] by blast
      have "mB ''path'' = None" using mB(2) no_path(2) strip_meta_path by metis
      then have "sync_crop e c P (enc, B)
          = (Returned, enc, B(P \<mapsto> JsonFile (mB(''characters'' \<mapsto> JArr [JStr c]))))"
        using mB(1) by (rule sync_crop_no_path [where A = B and P = P and m = mB, rotated])
      then have stepB: "sync_crop e c P (enc, B)
          = (Returned, enc, B(P \<mapsto> JsonFile (m(''characters'' \<mapsto> JArr [JStr c]))))"
        by (simp only: strip_meta_upd [OF mB(2)])
      let ?B' = "B(P \<mapsto> JsonFile (m(''characters'' \<mapsto> JArr [JStr c])))"
      have "run_jobs e js (enc', ?B') = (res, enc1, A1)"
      proof (rule Cons.IH [OF rest, where W = "insert P W"])
        show "\<forall>Q\<in>insert P W. A' Q = ?B' Q"
          using Cons.prems(2) no_path(4) by simp
        show "\<forall>Q. Q \<notin> insert P W \<longrightarrow> ?B' Q = A1 Q"
          using Cons.prems(3) by simp
        show "\<forall>F\<in>enc'. fst (get_corr_meta_names e F) \<in> insert P W"
          using Cons.prems(4) no_path(3) by simp
      qed
      then show ?thesis using stepB j no_path(3) by simp
    next
      case (path m F l m')
      let ?Qf = "fst (get_corr_meta_names e F)"
      obtain mB where mB: "B P = Some (JsonFile mB)" "strip_meta mB = strip_meta m"
        using crop [OF path(1)] by blast
      have pB: "mB ''path'' = Some (JStr F)" using mB(2) path(2) strip_meta_path by metis
      have "\<exists>lB. load_original e F B = Inr lB \<and> add_character c (F \<notin> enc) lB = Inr m'"
      proof (cases "?Qf \<in> W")
        case True
        then have "A ?Qf = B ?Qf" using Cons.prems(2) by simp
        then show ?thesis using load_original_cong path(3,4) by metis
      next
        case False
        then have first: "F \<notin> enc" using Cons.prems(4) by blast
        have BQ: "B ?Qf = A1 ?Qf" using False Cons.prems(3) by simp
        have "\<exists>l1. A1 ?Qf = Some (JsonFile l1) \<and> strip_meta l1 = strip_meta l"
        proof (cases "A ?Qf")
          case (Some f)
          then have "f = JsonFile l" using path(3) load_original_Some by blast
          then obtain f1 where "A1 ?Qf = Some f1" "strip f1 = strip (JsonFile l)"
            using run_jobs_preserves [OF whole Some] by blast
          then show ?thesis using strip_Json by fastforce
        next
          case None
          then have "?Qf \<noteq> P" using path(1) by auto
          then have "A' ?Qf = Some (JsonFile m')" using path(6) by simp
          then obtain f1 where "A1 ?Qf = Some f1" "strip f1 = strip (JsonFile m')"
            using run_jobs_preserves [OF rest] by blast
          moreover have "strip_meta m' = strip_meta l" using path(4) by (rule add_character_strip)
          ultimately show ?thesis using strip_Json by fastforce
        qed
        then obtain l1 where l1: "B ?Qf = Some (JsonFile l1)" "strip_meta l1 = strip_meta l"
          using BQ by auto
        have "load_original e F B = Inr l1" using l1(1) by (rule load_original_Json)
        moreover have "add_character c (F \<notin> enc) l1 = Inr m'"
          using add_character_first [OF l1(2)] path(4) first by simp
        ultimately show ?thesis by blast
      qed
      then obtain lB where lB: "load_original e F B = Inr lB"
          "add_character c (F \<notin> enc) lB = Inr m'" by blast
      let ?B' = "B(?Qf \<mapsto> JsonFile m', P \<mapsto> JsonFile (m(''characters'' \<mapsto> JArr [JStr c])))"
      have "sync_crop e c P (enc, B) = (Returned, insert F enc,
          B(?Qf \<mapsto> JsonFile m', P \<mapsto> JsonFile (mB(''characters'' \<mapsto> JArr [JStr c]))))"
        using mB(1) pB lB
        by (rule sync_crop_path [where A = B and P = P and m = mB and F = F and l = lB])
      then have stepB: "sync_crop e c P (enc, B) = (Returned, insert F enc, ?B')"
        by (simp only: strip_meta_upd [OF mB(2)])
      have "run_jobs e js (enc', ?B') = (res, enc1, A1)"
      proof (rule Cons.IH [OF rest, where W = "insert ?Qf (insert P W)"])
        show "\<forall>Q\<in>insert ?Qf (insert P W). A' Q = ?B' Q"
          using Cons.prems(2) path(6) by simp
        show "\<forall>Q. Q \<notin> insert ?Qf (insert P W) \<longrightarrow> ?B' Q = A1 Q"
          using Cons.prems(3) by simp
        show "\<forall>F\<in>enc'. fst (get_corr_meta_names e F) \<in> insert ?Qf (insert P W)"
          using Cons.prems(4) path(5) by simp
      qed
      then show ?thesis using stepB j path(5) by simp
    qed
  qed
qed

text \<open>
  C3. A second run of the synchronizer on the same crop tree, started from the files the
  first run left, has the outcome of the first run and leaves exactly the files the first
  run left: every record, and so every \<^verbatim>\<open>characters\<close> list, of a crop or of an original
  frame, is what it was after the first run.
\<close>

theorem synchronizer_idempotent:
  "save_characters_to_meta e crop_dir folders
     (snd (save_characters_to_meta e crop_dir folders files))
   = save_characters_to_meta e crop_dir folders files"
proof -
  obtain res enc1 files1 where
    run: "run_jobs e (jobs_of e crop_dir folders) ({}, files) = (res, enc1, files1)"
    by (cases "run_jobs e (jobs_of e crop_dir folders) ({}, files)")
  have "run_jobs e (jobs_of e crop_dir folders) ({}, files1) = (res, enc1, files1)"
    by (rule run_jobs_again [OF run, where W = "{}"]) simp_all
  then show ?thesis
    using run by (simp add: save_characters_to_meta_def sync_folders_jobs)
qed

theorem synchronizer_idempotent_witness:
  "save_characters_to_meta example_env ''crops'' two_folders
     (snd (save_characters_to_meta example_env ''crops'' two_folders two_crops))
   = save_characters_to_meta example_env ''crops'' two_folders two_crops
   \<and> fst (save_characters_to_meta example_env ''crops'' two_folders two_crops) = Returned"
proof -
  have "fst (save_characters_to_meta example_env ''crops'' two_folders two_crops) = Returned"
    by (simp add: two_folders_def two_crops_def sync_eval)
  with synchronizer_idempotent [of example_env "''crops''" two_folders two_crops]
  show ?thesis by simp
qed

lemma originals_apart_iff:
  "originals_apart e A js \<longleftrightarrow>
     (\<forall>P\<in>snd ` set js. \<forall>F. link_of A P = Some F \<longrightarrow>
        (\<forall>P'\<in>snd ` set js. fst (get_corr_meta_names e F) \<noteq> P' \<and>
           (\<forall>F'. link_of A P' = Some F' \<longrightarrow>
              fst (get_corr_meta_names e F') = fst (get_corr_meta_names e F) \<longrightarrow> F' = F)))"
  unfolding originals_apart_def list_all_iff
  by (simp split: option.splits) blast

lemma originals_apart_links:
  assumes "originals_apart e A js" and "set js' \<subseteq> set js"
    and "\<forall>P\<in>snd ` set js. link_of A' P = link_of A P"
  shows "originals_apart e A' js'"
proof -
  have sub: "snd ` set js' \<subseteq> snd ` set js" using assms(2) by (rule image_mono)
  have old: "\<forall>P\<in>snd ` set js. \<forall>F. link_of A P = Some F \<longrightarrow>
        (\<forall>P'\<in>snd ` set js. fst (get_corr_meta_names e F) \<noteq> P' \<and>
           (\<forall>F'. link_of A P' = Some F' \<longrightarrow>
              fst (get_corr_meta_names e F') = fst (get_corr_meta_names e F) \<longrightarrow> F' = F))"
    using assms(1) by (simp only: originals_apart_iff)
  show ?thesis
    unfolding originals_apart_iff
  proof (intro ballI allI impI)
    fix P F P'
    assume a: "P \<in> snd ` set js'" "link_of A' P = Some F" "P' \<in> snd ` set js'"
    have P1: "P \<in> snd ` set js" and P': "P' \<in> snd ` set js" using a(1,3) sub by blast+
    have "link_of A' P = link_of A P" using assms(3) P1 by blast
    then have P2: "link_of A P = Some F" using a(2) by simp
    note P = P1 P2
    have "\<forall>F'. link_of A' P' = Some F' \<longrightarrow>
              fst (get_corr_meta_names e F') = fst (get_corr_meta_names e F) \<longrightarrow> F' = F"
      using old P P' assms(3) by auto
    moreover have "fst (get_corr_meta_names e F) \<noteq> P'" using old P P' by blast
    ultimately show "fst (get_corr_meta_names e F) \<noteq> P' \<and>
           (\<forall>F'. link_of A' P' = Some F' \<longrightarrow>
              fst (get_corr_meta_names e F') = fst (get_corr_meta_names e F) \<longrightarrow> F' = F)"
      by blast
  qed
qed

lemma derived_names_links:
  "\<forall>P\<in>snd ` set js. link_of A' P = link_of A P \<Longrightarrow> derived_names A' js F = derived_names A js F"
  unfolding derived_names_def
  by (rule arg_cong [where f = "map fst"], rule filter_cong) auto

lemma link_of_relabel:
  "A P = Some (JsonFile m) \<Longrightarrow>
     link_of (A(P \<mapsto> JsonFile (m(''characters'' \<mapsto> v)))) = link_of A"
  by (rule ext) (simp add: link_of_def)

lemma link_of_Json: "A P = Some (JsonFile m) \<Longrightarrow> m ''path'' = Some (JStr F) \<Longrightarrow> link_of A P = Some F"
  by (simp add: link_of_def)

lemma link_of_no_path: "A P = Some (JsonFile m) \<Longrightarrow> m ''path'' = None \<Longrightarrow> link_of A P = None"
  by (simp add: link_of_def)

lemma add_character_first_chars:
  "add_character c True l = Inr m' \<Longrightarrow> m' ''characters'' = Some (JArr [JStr c])"
  by (auto simp: add_character_def py_in_def py_append_def)

lemma add_character_next_chars:
  "l ''characters'' = Some (JArr (map JStr acc)) \<Longrightarrow> add_character c False l = Inr m' \<Longrightarrow>
     m' ''characters'' = Some (JArr (map JStr (add_name c acc)))"
proof -
  assume l: "l ''characters'' = Some (JArr (map JStr acc))"
    and r: "add_character c False l = Inr m'"
  have mem: "(JStr c \<in> JStr ` set acc) = (c \<in> set acc)" by auto
  show ?thesis
  proof (cases "c \<in> set acc")
    case True
    then show ?thesis using l r by (simp add: add_character_def py_in_def mem add_name_def)
  next
    case False
    then show ?thesis
      using l r by (auto simp: add_character_def py_in_def py_append_def mem add_name_def)
  qed
qed

lemma characters_at_other:
  "Q \<noteq> P \<Longrightarrow> characters_at (A(P \<mapsto> f)) Q = characters_at A Q"
  by (simp add: characters_at_def)

lemma characters_at_Json: "characters_at (A(Q \<mapsto> JsonFile m)) Q = m ''characters''"
  by (simp add: characters_at_def)

lemma characters_at_loaded:
  "characters_at A (fst (get_corr_meta_names e F)) = Some v \<Longrightarrow> load_original e F A = Inr l \<Longrightarrow>
     l ''characters'' = Some v"
  by (auto simp: characters_at_def load_original_def json_load_def
           split: option.splits disk_file.splits)

lemma derived_names_Cons:
  "derived_names A ((c, P) # js) F
     = (if link_of A P = Some F then c # derived_names A js F else derived_names A js F)"
  by (simp add: derived_names_def)

lemma run_jobs_characters:
  assumes "run_jobs e js (enc, A) = (Returned, enc', A')"
    and "originals_apart e A js"
    and "\<forall>P\<in>snd ` set js. P \<noteq> fst (get_corr_meta_names e F)"
    and "\<forall>P\<in>snd ` set js. \<forall>F'. link_of A P = Some F' \<longrightarrow>
           fst (get_corr_meta_names e F') = fst (get_corr_meta_names e F) \<longrightarrow> F' = F"
    and "if F \<in> enc then characters_at A (fst (get_corr_meta_names e F)) = Some (JArr (map JStr acc))
         else acc = []"
  shows "(F \<in> enc' \<longleftrightarrow> F \<in> enc \<or> derived_names A js F \<noteq> [])
       \<and> (F \<in> enc' \<longrightarrow> characters_at A' (fst (get_corr_meta_names e F))
             = Some (JArr (map JStr (fold add_name (derived_names A js F) acc))))"
  using assms
proof (induction js arbitrary: enc A acc)
  case Nil
  then show ?case by (auto simp: derived_names_def split: if_splits)
next
  case (Cons j js)
  let ?Qf = "fst (get_corr_meta_names e F)"
  obtain c P where j: "j = (c, P)" by (cases j)
  obtain r enc1 A1 where step: "sync_crop e c P (enc, A) = (r, enc1, A1)"
    by (cases "sync_crop e c P (enc, A)")
  have r: "r = Returned" using Cons.prems(1) step j by (cases r) auto
  have rest: "run_jobs e js (enc1, A1) = (Returned, enc', A')"
    using Cons.prems(1) step j r by simp
  have PQ: "P \<noteq> ?Qf" using Cons.prems(3) j by simp
  have apart: "\<forall>P\<in>snd ` set (j # js). \<forall>F. link_of A P = Some F \<longrightarrow>
        (\<forall>P'\<in>snd ` set (j # js). fst (get_corr_meta_names e F) \<noteq> P')"
    using Cons.prems(2) unfolding originals_apart_iff by blast
  have links: "\<forall>P'\<in>snd ` set (j # js). link_of A1 P' = link_of A P'"
    using step [unfolded r]
  proof (cases rule: sync_crop_Returned)
    case (no_path m)
    then show ?thesis using link_of_relabel [where A = A and P = P, OF no_path(1)] by simp
  next
    case (path m G l m')
    let ?Qg = "fst (get_corr_meta_names e G)"
    have "link_of A P = Some G" using path(1,2) by (rule link_of_Json [where A = A and P = P])
    then have notjob: "\<forall>P'\<in>snd ` set (j # js). ?Qg \<noteq> P'" using apart j by auto
    show ?thesis
    proof
      fix P' assume P': "P' \<in> snd ` set (j # js)"
      show "link_of A1 P' = link_of A P'"
      proof (cases "P' = P")
        case True
        then show ?thesis using path(1,2,6) by (simp add: link_of_def)
      next
        case False
        moreover have "P' \<noteq> ?Qg" using notjob P' by blast
        ultimately show ?thesis using path(6) by (simp add: link_of_def)
      qed
    qed
  qed
  have links': "\<forall>P'\<in>snd ` set js. link_of A1 P' = link_of A P'" using links by simp
  have apart1: "originals_apart e A1 js"
    using originals_apart_links [OF Cons.prems(2) _ links, of js] by auto
  have notcrop1: "\<forall>P\<in>snd ` set js. P \<noteq> ?Qf" using Cons.prems(3) by simp
  have inj1: "\<forall>P\<in>snd ` set js. \<forall>F'. link_of A1 P = Some F' \<longrightarrow>
           fst (get_corr_meta_names e F') = ?Qf \<longrightarrow> F' = F"
    using Cons.prems(4) links' by simp
  have dn: "derived_names A1 js F = derived_names A js F"
    using links' by (rule derived_names_links)
  from step [unfolded r] show ?case
  proof (cases rule: sync_crop_Returned)
    case (no_path m)
    have nl: "link_of A P = None" using no_path(1,2) by (rule link_of_no_path [where A = A and P = P])
    have "characters_at A1 ?Qf = characters_at A ?Qf"
      using no_path(4) PQ by (simp add: characters_at_other)
    then have cur1: "if F \<in> enc1 then characters_at A1 ?Qf = Some (JArr (map JStr acc))
         else acc = []"
      using Cons.prems(5) no_path(3) by simp
    from Cons.IH [OF rest apart1 notcrop1 inj1 cur1]
    show ?thesis using nl no_path(3) dn by (simp add: j derived_names_Cons)
  next
    case (path m G l m')
    let ?Qg = "fst (get_corr_meta_names e G)"
    have lk: "link_of A P = Some G" using path(1,2) by (rule link_of_Json [where A = A and P = P])
    show ?thesis
    proof (cases "G = F")
      case True
      have A1Q: "characters_at A1 ?Qf = m' ''characters''"
        using path(6) PQ True by (simp add: characters_at_def)
      have "m' ''characters'' = Some (JArr (map JStr (add_name c acc)))"
      proof (cases "F \<in> enc")
        case True
        then have "characters_at A ?Qf = Some (JArr (map JStr acc))"
          using Cons.prems(5) by simp
        then have "l ''characters'' = Some (JArr (map JStr acc))"
          using path(3) \<open>G = F\<close> characters_at_loaded by blast
        then show ?thesis
          using path(4) \<open>G = F\<close> True add_character_next_chars by simp
      next
        case False
        then have "acc = []" using Cons.prems(5) by simp
        then show ?thesis
          using path(4) \<open>G = F\<close> False add_character_first_chars
          by (simp add: add_name_def)
      qed
      then have cur1: "if F \<in> enc1 then characters_at A1 ?Qf
            = Some (JArr (map JStr (add_name c acc))) else add_name c acc = []"
        using A1Q path(5) True by simp
      from Cons.IH [OF rest apart1 notcrop1 inj1 cur1]
      show ?thesis using lk True path(5) dn by (simp add: j derived_names_Cons)
    next
      case False
      then have "?Qg \<noteq> ?Qf" using Cons.prems(4) lk j by auto
      then have "characters_at A1 ?Qf = characters_at A ?Qf"
        using path(6) PQ by (simp add: characters_at_def)
      then have cur1: "if F \<in> enc1 then characters_at A1 ?Qf = Some (JArr (map JStr acc))
         else acc = []"
        using Cons.prems(5) path(5) False by auto
      from Cons.IH [OF rest apart1 notcrop1 inj1 cur1]
      show ?thesis using lk False path(5) dn by (auto simp: j derived_names_Cons)
    qed
  qed
qed

lemma set_fold_add_name: "set (fold add_name xs acc) = set xs \<union> set acc"
  by (induction xs arbitrary: acc) (auto simp: add_name_def)

lemma distinct_fold_add_name: "distinct acc \<Longrightarrow> distinct (fold add_name xs acc)"
  by (induction xs arbitrary: acc) (auto simp: add_name_def)

lemma set_jobs_of: "set (jobs_of e crop_dir folders) = (\<Union>entry\<in>set folders. set (jobs_of_folder e crop_dir entry))"
  by (simp add: jobs_of_def)

lemma set_derived_names:
  "set (derived_names A js F) = {c. \<exists>P. (c, P) \<in> set js \<and> link_of A P = Some F}"
  by (auto simp: derived_names_def image_iff)

lemma characters_after_run:
  assumes run: "save_characters_to_meta e crop_dir folders files = (Returned, files')"
    and apart: "originals_apart e files (jobs_of e crop_dir folders)"
    and job: "(c, P) \<in> set (jobs_of e crop_dir folders)" and link: "link_of files P = Some F"
  shows "characters_at files' (fst (get_corr_meta_names e F))
       = Some (JArr (map JStr (ordered_dedup (derived_names files (jobs_of e crop_dir folders) F))))"
proof -
  let ?js = "jobs_of e crop_dir folders"
  obtain enc' where rj: "run_jobs e ?js ({}, files) = (Returned, enc', files')"
    using run by (auto simp: save_characters_to_meta_def sync_folders_jobs split: prod.splits)
  have P: "P \<in> snd ` set ?js" using job by force
  have notcrop: "\<forall>P'\<in>snd ` set ?js. P' \<noteq> fst (get_corr_meta_names e F)"
    using apart P link unfolding originals_apart_iff by blast
  have inj: "\<forall>P'\<in>snd ` set ?js. \<forall>F'. link_of files P' = Some F' \<longrightarrow>
           fst (get_corr_meta_names e F') = fst (get_corr_meta_names e F) \<longrightarrow> F' = F"
    using apart P link unfolding originals_apart_iff by blast
  have cur: "if F \<in> {} then characters_at files (fst (get_corr_meta_names e F))
      = Some (JArr (map JStr [])) else [] = ([] :: string list)"
    by simp
  have "c \<in> set (derived_names files ?js F)" using job link unfolding set_derived_names by blast
  then have ne: "derived_names files ?js F \<noteq> []" by auto
  from run_jobs_characters [OF rj apart notcrop inj cur] ne
  show ?thesis by (simp add: ordered_dedup_def)
qed

text \<open>
  C1, as the code has it. When a run returns, the record of every original frame \<open>F\<close>
  that the record of a visited crop links to has as its \<^verbatim>\<open>characters\<close> the names of the
  visited crops linking to \<open>F\<close>, in the order of the visit, each once: whatever the record
  held before is gone. A run over the same folders in another order leaves a list with
  the same names, each once, in the order of that visit. The frames' records are apart
  from the crops' and from each other, as \<open>originals_apart\<close> says.
\<close>

theorem original_frame_characters:
  assumes "save_characters_to_meta e crop_dir folders files = (Returned, files')"
    and "originals_apart e files (jobs_of e crop_dir folders)"
    and "(c, P) \<in> set (jobs_of e crop_dir folders)" and "link_of files P = Some F"
    and "mset reordered = mset folders"
    and "save_characters_to_meta e crop_dir reordered files = (Returned, files'')"
  shows "characters_at files' (fst (get_corr_meta_names e F))
           = Some (JArr (map JStr
               (ordered_dedup (derived_names files (jobs_of e crop_dir folders) F))))
       \<and> (\<exists>names. characters_at files'' (fst (get_corr_meta_names e F))
                      = Some (JArr (map JStr names))
             \<and> mset names
                 = mset (ordered_dedup (derived_names files (jobs_of e crop_dir folders) F)))"
proof -
  let ?js = "jobs_of e crop_dir folders"
  let ?js2 = "jobs_of e crop_dir reordered"
  have "set reordered = set folders" using assms(5) by (rule mset_eq_setD)
  then have sets: "set ?js2 = set ?js" by (simp add: set_jobs_of)
  have apart2: "originals_apart e files ?js2"
    using originals_apart_links [OF assms(2), of ?js2 files] sets by simp
  have job2: "(c, P) \<in> set ?js2" using assms(3) sets by simp
  have first: "characters_at files' (fst (get_corr_meta_names e F))
      = Some (JArr (map JStr (ordered_dedup (derived_names files ?js F))))"
    by (rule characters_after_run [OF assms(1-4)])
  have second: "characters_at files'' (fst (get_corr_meta_names e F))
      = Some (JArr (map JStr (ordered_dedup (derived_names files ?js2 F))))"
    by (rule characters_after_run [OF assms(6) apart2 job2 assms(4)])
  have "set (ordered_dedup (derived_names files ?js2 F))
      = set (ordered_dedup (derived_names files ?js F))"
    by (simp add: ordered_dedup_def set_fold_add_name set_derived_names sets)
  moreover have "distinct (ordered_dedup (derived_names files ?js2 F))"
    and "distinct (ordered_dedup (derived_names files ?js F))"
    by (simp_all add: ordered_dedup_def distinct_fold_add_name)
  ultimately have "mset (ordered_dedup (derived_names files ?js2 F))
      = mset (ordered_dedup (derived_names files ?js F))"
    by (simp add: set_eq_iff_mset_eq_distinct)
  then show ?thesis using first second by blast
qed

lemmas jobs_eval = jobs_of_def jobs_of_folder_def jobs_of_files_def

theorem original_frame_characters_witness:
  "characters_at (snd (save_characters_to_meta example_env ''crops'' two_folders two_crops))
       ''full/f.png.json'' = Some (JArr (map JStr [''alice'', ''bob'']))
   \<and> (\<exists>names. characters_at
          (snd (save_characters_to_meta example_env ''crops'' (rev two_folders) two_crops))
          ''full/f.png.json'' = Some (JArr (map JStr names))
        \<and> mset names = mset [''alice'', ''bob''])"
proof -
  have "fst (save_characters_to_meta example_env ''crops'' two_folders two_crops) = Returned"
    by (simp add: two_folders_def two_crops_def sync_eval)
  then have r1: "save_characters_to_meta example_env ''crops'' two_folders two_crops
      = (Returned, snd (save_characters_to_meta example_env ''crops'' two_folders two_crops))"
    by (simp add: prod_eq_iff)
  have "fst (save_characters_to_meta example_env ''crops'' (rev two_folders) two_crops) = Returned"
    by (simp add: two_folders_def two_crops_def sync_eval)
  then have r2: "save_characters_to_meta example_env ''crops'' (rev two_folders) two_crops
      = (Returned, snd (save_characters_to_meta example_env ''crops'' (rev two_folders) two_crops))"
    by (simp add: prod_eq_iff)
  have js: "jobs_of example_env ''crops'' two_folders
      = [(''alice'', ''crops/1_alice/a.png.json''), (''bob'', ''crops/2_bob/b.png.json'')]"
    by (simp add: two_folders_def jobs_eval char_name_of_def) (simp add: sync_eval)
  have ap: "originals_apart example_env two_crops (jobs_of example_env ''crops'' two_folders)"
    unfolding js by (simp add: originals_apart_def link_of_def two_crops_def example_env_def)
  have job: "(''alice'', ''crops/1_alice/a.png.json'') \<in> set (jobs_of example_env ''crops'' two_folders)"
    unfolding js by simp
  have link: "link_of two_crops ''crops/1_alice/a.png.json'' = Some ''full/f.png''"
    by (simp add: link_of_def two_crops_def)
  have perm: "mset (rev two_folders) = mset two_folders" by simp
  have dn: "ordered_dedup (derived_names two_crops (jobs_of example_env ''crops'' two_folders)
              ''full/f.png'') = [''alice'', ''bob'']"
    unfolding js
    by (simp add: ordered_dedup_def derived_names_def link_of_def two_crops_def add_name_def)
  have q: "fst (get_corr_meta_names example_env ''full/f.png'') = ''full/f.png.json''"
    by (simp add: example_env_def)
  from original_frame_characters [OF r1 ap job link perm r2]
  show ?thesis by (simp only: dn q)
qed

text \<open>
  C1 as stated fails in its last part: the list itself depends on the order in which the
  folders are visited. Two folders whose crops come from one frame give \<^verbatim>\<open>alice, bob\<close>
  in one order and \<^verbatim>\<open>bob, alice\<close> in the other.
\<close>

theorem characters_order_depends_on_folders:
  "characters_at (snd (save_characters_to_meta example_env ''crops'' two_folders two_crops))
       ''full/f.png.json'' = Some (JArr [JStr ''alice'', JStr ''bob''])
   \<and> characters_at (snd (save_characters_to_meta example_env ''crops'' (rev two_folders) two_crops))
       ''full/f.png.json'' = Some (JArr [JStr ''bob'', JStr ''alice''])"
  by (simp add: two_folders_def two_crops_def characters_at_def sync_eval)

end
